theory Spec2Isabelle
  imports Complex_Main "HOL-Library.Multiset"
begin

section \<open>Combination enumeration and pairing\<close>

text \<open>
  Treatment labels and combination codes are Python strings.  The notebook builds the
  list \<open>C\<close> of combination codes by

  \<^verbatim>\<open>all_combinations = list(chain.from_iterable(combinations(TREATMENTS, r)
                                       for r in range(len(TREATMENTS) + 1)))\<close>
  \<^verbatim>\<open>all_combinations = [''.join(i) for i in all_combinations]\<close>
  \<^verbatim>\<open>C = ['0' if i == '' else i for i in all_combinations]\<close>

  \<open>combinations\<close> is \<open>itertools.combinations\<close>: the \<open>r\<close>-element subsequences of the
  input, emitted in lexicographic order of their positions.
\<close>

fun combinations :: "'a list \<Rightarrow> nat \<Rightarrow> 'a list list" where
  "combinations xs 0 = [[]]"
| "combinations [] (Suc r) = []"
| "combinations (x # xs) (Suc r) =
     map ((#) x) (combinations xs r) @ combinations xs (Suc r)"

definition all_combinations :: "string list \<Rightarrow> string list list" where
  "all_combinations ts = concat (map (combinations ts) [0..<length ts + 1])"

text \<open>The code of one combination: its labels joined, \<open>'0'\<close> for the empty one.\<close>

definition comb_code :: "string list \<Rightarrow> string" where
  "comb_code w = (let i = concat w in if i = [] then ''0'' else i)"

definition C_of :: "string list \<Rightarrow> string list" where
  "C_of ts = map comb_code (all_combinations ts)"

text \<open>Python's \<open>sub in s\<close> on strings: \<open>sub\<close> occurs in \<open>s\<close> as a contiguous substring.\<close>

fun startswith :: "string \<Rightarrow> string \<Rightarrow> bool" where
  "startswith s [] = True"
| "startswith [] (p # ps) = False"
| "startswith (c # s) (p # ps) = (c = p \<and> startswith s ps)"

fun str_in :: "string \<Rightarrow> string \<Rightarrow> bool" where
  "str_in sub [] = (sub = [])"
| "str_in sub (c # s) = (startswith (c # s) sub \<or> str_in sub s)"

text \<open>
  The split of \<open>C\<close> made by \<open>calculate_ate\<close> for one treatment, and the pairs its inner
  loop runs over:

  \<^verbatim>\<open>W_k = [comb for comb in C if treatment in comb]\<close>
  \<^verbatim>\<open>S__k = [comb for comb in C if treatment not in comb]\<close>
  \<^verbatim>\<open>for w_k, s__k in zip(W_k, S__k): ...\<close>
\<close>

definition W_k :: "string list \<Rightarrow> string \<Rightarrow> string list" where
  "W_k C treatment = filter (\<lambda>comb. str_in treatment comb) C"

definition S__k :: "string list \<Rightarrow> string \<Rightarrow> string list" where
  "S__k C treatment = filter (\<lambda>comb. \<not> str_in treatment comb) C"

definition matched_pairs :: "string list \<Rightarrow> string \<Rightarrow> (string \<times> string) list" where
  "matched_pairs C treatment = zip (W_k C treatment) (S__k C treatment)"


section \<open>Errors and numbers\<close>

text \<open>
  The exceptions that can leave the functions below.  \<open>ValueError\<close> is raised by the
  input validation of scikit-learn's estimators, \<open>ZeroDivisionError\<close> by Python's integer
  division, \<open>KeyError\<close> by \<open>DataFrame.drop\<close>.  \<open>InsufficientDataError\<close> and
  \<open>DegenerateWeightError\<close> are the names used by the specification's error taxonomy; the
  notebook defines no exception class and raises nothing itself.
\<close>

datatype error =
    ValueError
  | ZeroDivisionError
  | KeyError
  | InsufficientDataError
  | DegenerateWeightError

text \<open>
  Floating-point numbers are idealised as reals.  The one float effect that is kept is
  division by zero: on numpy arrays \<open>x / 0.0\<close> raises nothing and yields \<open>inf\<close>, \<open>-inf\<close> or
  \<open>nan\<close>.  A possibly non-finite number is a \<open>real option\<close>, \<open>None\<close> standing for any of the
  three non-finite values; a sum or difference with a non-finite operand is non-finite.
\<close>

type_synonym npfloat = "real option"

definition np_div :: "real \<Rightarrow> real \<Rightarrow> npfloat" where
  "np_div a b = (if b = 0 then None else Some (a / b))"

fun np_add :: "real \<Rightarrow> npfloat \<Rightarrow> npfloat" where
  "np_add a None = None"
| "np_add a (Some b) = Some (a + b)"

fun np_sub :: "npfloat \<Rightarrow> npfloat \<Rightarrow> npfloat" where
  "np_sub (Some a) (Some b) = Some (a - b)"
| "np_sub _ _ = None"

definition np_mean :: "real list \<Rightarrow> real" where
  "np_mean v = sum_list v / real (length v)"

section \<open>The estimators of scikit-learn\<close>

text \<open>
  The fitted models are not part of the program; they are parameters.  A classifier
  maps the training matrix and the class labels to the fitted function
  \<open>row \<mapsto> P(class 1 | row)\<close> (column 1 of \<open>predict_proba\<close>); a regressor maps the training
  matrix and the targets to the fitted intercept and coefficients.
\<close>

type_synonym matrix = "real list list"
type_synonym classifier = "matrix \<Rightarrow> int list \<Rightarrow> real list \<Rightarrow> real"
type_synonym linear_model = "real \<times> real list"
type_synonym regressor = "matrix \<Rightarrow> real list \<Rightarrow> linear_model"

text \<open>
  \<open>LogisticRegression(penalty=None).fit(X, T)\<close>: the estimator validates its input and
  raises \<open>ValueError\<close> on an empty sample and when \<open>T\<close> holds fewer than two classes.
\<close>

definition LogisticRegression_fit ::
  "classifier \<Rightarrow> matrix \<Rightarrow> int list \<Rightarrow> error + (real list \<Rightarrow> real)" where
  "LogisticRegression_fit clf X T =
     (if X = [] \<or> length (remdups T) < 2 then Inl ValueError else Inr (clf X T))"

text \<open>
  \<open>LinearRegression().fit(X, y)\<close>: \<open>ValueError\<close> on an empty sample and on a target that
  holds \<open>nan\<close> or an infinity.
\<close>

definition LinearRegression_fit ::
  "regressor \<Rightarrow> matrix \<Rightarrow> npfloat list \<Rightarrow> error + linear_model" where
  "LinearRegression_fit reg X y =
     (if X = [] \<or> None \<in> set y then Inl ValueError else Inr (reg X (map the y)))"

definition predict_row :: "linear_model \<Rightarrow> real list \<Rightarrow> real" where
  "predict_row m row = fst m + sum_list (map2 (*) (snd m) row)"

definition predict :: "linear_model \<Rightarrow> matrix \<Rightarrow> real list" where
  "predict m X = map (predict_row m) X"

text \<open>
  The contract of ordinary least squares with an intercept: the fitted model minimises
  the sum of squared residuals over all intercepts and coefficient vectors.
\<close>

definition sse :: "linear_model \<Rightarrow> matrix \<Rightarrow> real list \<Rightarrow> real" where
  "sse m X y = sum_list (map2 (\<lambda>row v. (v - predict_row m row)\<^sup>2) X y)"

definition least_squares_fit :: "linear_model \<Rightarrow> matrix \<Rightarrow> real list \<Rightarrow> bool" where
  "least_squares_fit m X y \<longleftrightarrow> (\<forall>m'. sse m X y \<le> sse m' X y)"

text \<open>
  Three concrete fitted models for running the program on small data: the regression
  and the classifier that an intercept-only fit returns (all coefficients zero, the
  intercept the mean of the targets, respectively the share of class 1), and a classifier
  whose probabilities have saturated to exactly 0 and 1, as the double-precision
  logistic function does for scores beyond about 37 in absolute value.
\<close>

definition mean_regressor :: regressor where
  "mean_regressor X y = (np_mean y, case X of [] \<Rightarrow> [] | row # _ \<Rightarrow> map (\<lambda>_. 0) row)"

definition base_rate_classifier :: classifier where
  "base_rate_classifier X T row = np_mean (map real_of_int T)"


section \<open>Propensity scores and doubly robust scores\<close>

text \<open>
  \<^verbatim>\<open>def calculate_propensity_scores(X, T):\<close>
  \<^verbatim>\<open>    model_t = LogisticRegression(penalty=None).fit(X, T)\<close>
  \<^verbatim>\<open>    return model_t.predict_proba(X)[:, 1]\<close>
\<close>

definition calculate_propensity_scores ::
  "classifier \<Rightarrow> matrix \<Rightarrow> int list \<Rightarrow> error + real list" where
  "calculate_propensity_scores clf X T =
     (case LogisticRegression_fit clf X T of
        Inl e \<Rightarrow> Inl e
      | Inr model_t \<Rightarrow> Inr (map model_t X))"

text \<open>Boolean-mask selection \<open>V[T == v]\<close>.\<close>

definition mask :: "int list \<Rightarrow> int \<Rightarrow> 'a list \<Rightarrow> 'a list" where
  "mask T v V = map snd (filter (\<lambda>(t, _). t = v) (zip T V))"

text \<open>
  \<^verbatim>\<open>def calculate_doubly_robust_scores(X, y, T, ps):\<close>
  \<^verbatim>\<open>    m0 = LinearRegression().fit(X[T == 0], y[T == 0])\<close>
  \<^verbatim>\<open>    m1 = LinearRegression().fit(X[T == 1], y[T == 1])\<close>
  \<^verbatim>\<open>    m0_hat = m0.predict(X)\<close>
  \<^verbatim>\<open>    m1_hat = m1.predict(X)\<close>
  \<^verbatim>\<open>    y_dr_1 = m1_hat + (T * (y - m1_hat)) / ps\<close>
  \<^verbatim>\<open>    y_dr_0 = m0_hat + ((1 - T) * (y - m0_hat)) / (1 - ps)\<close>
  \<^verbatim>\<open>    return y_dr_1 - y_dr_0\<close>

  All operands are aligned vectors over the same subset, so the elementwise operations
  are \<open>map\<close> and \<open>map2\<close>.
\<close>

definition calculate_doubly_robust_scores ::
  "regressor \<Rightarrow> matrix \<Rightarrow> real list \<Rightarrow> int list \<Rightarrow> real list \<Rightarrow> error + npfloat list" where
  "calculate_doubly_robust_scores reg X y T ps =
     (case LinearRegression_fit reg (mask T 0 X) (map Some (mask T 0 y)) of
        Inl e \<Rightarrow> Inl e
      | Inr m0 \<Rightarrow>
     (case LinearRegression_fit reg (mask T 1 X) (map Some (mask T 1 y)) of
        Inl e \<Rightarrow> Inl e
      | Inr m1 \<Rightarrow>
          let m0_hat = predict m0 X;
              m1_hat = predict m1 X;
              y_dr_1 = map2 np_add m1_hat
                         (map2 np_div (map2 (\<lambda>t r. real_of_int t * r) T (map2 (-) y m1_hat)) ps);
              y_dr_0 = map2 np_add m0_hat
                         (map2 np_div
                            (map2 (\<lambda>t r. real_of_int t * r) (map (\<lambda>t. 1 - t) T) (map2 (-) y m0_hat))
                            (map (\<lambda>p. 1 - p) ps))
          in Inr (map2 np_sub y_dr_1 y_dr_0)))"

section \<open>Weighted aggregation\<close>

text \<open>
  A data frame of score columns is the list of its (distinct) column labels with their
  values; \<open>treatment_prob\<close> is a dictionary from combination code to weight.

  \<^verbatim>\<open>def compute_weighted_dr_scores(dr_scores, treatment_prob):\<close>
  \<^verbatim>\<open>    valid_weights = {col: treatment_prob[col] for col in dr_scores.columns\<close>
  \<^verbatim>\<open>                     if col in treatment_prob}\<close>
  \<^verbatim>\<open>    weighted_sum = sum(dr_scores[col] * w for col, w in valid_weights.items())\<close>
  \<^verbatim>\<open>    return weighted_sum / sum(valid_weights.values())\<close>

  Python's \<open>sum\<close> starts from the integer 0.  With no valid column both sums are that
  integer and \<open>0 / 0\<close> raises \<open>ZeroDivisionError\<close>; otherwise the numerator is a column of
  floats and the division is numpy's.
\<close>

definition valid_weights :: "(string \<times> real list) list \<Rightarrow> (string \<rightharpoonup> real) \<Rightarrow> (string \<times> real) list" where
  "valid_weights dr_scores treatment_prob =
     concat (map (\<lambda>(col, _). case treatment_prob col of None \<Rightarrow> [] | Some w \<Rightarrow> [(col, w)])
               dr_scores)"

definition column :: "(string \<times> real list) list \<Rightarrow> string \<Rightarrow> real list" where
  "column dr_scores col = (case map_of dr_scores col of None \<Rightarrow> [] | Some s \<Rightarrow> s)"

definition compute_weighted_dr_scores ::
  "(string \<times> real list) list \<Rightarrow> (string \<rightharpoonup> real) \<Rightarrow> error + npfloat list" where
  "compute_weighted_dr_scores dr_scores treatment_prob =
     (case valid_weights dr_scores treatment_prob of
        [] \<Rightarrow> Inl ZeroDivisionError
      | (col0, w0) # rest \<Rightarrow>
          let weighted_sum =
                foldl (\<lambda>acc (col, w). map2 (+) acc (map (\<lambda>x. x * w) (column dr_scores col)))
                  (map (\<lambda>x. 0 + x * w0) (column dr_scores col0)) rest;
              total = foldl (+) 0 (map snd ((col0, w0) # rest))
          in Inr (map (\<lambda>v. np_div v total) weighted_sum))"

section \<open>The main loop\<close>

text \<open>
  A row of the training frame: the values of its numeric columns other than \<open>y\<close> (the
  covariates and the treatment indicators, in the order of the frame's column names),
  the outcome \<open>y\<close> and the combination label \<open>t\<close>.
\<close>

record obs =
  vals :: "real list"
  y_val :: real
  t_lab :: string

record dataframe =
  num_cols :: "string list"
  obs_rows :: "obs list"

text \<open>
  \<open>df.drop(columns=['y', 't'] + treatment_cols)\<close> raises \<open>KeyError\<close> when a named column is
  missing, and otherwise keeps the other columns.
\<close>

definition missing_columns :: "string list \<Rightarrow> dataframe \<Rightarrow> bool" where
  "missing_columns names df = (\<exists>n\<in>set names. n \<notin> set (num_cols df))"

definition features :: "string list \<Rightarrow> string list \<Rightarrow> obs list \<Rightarrow> matrix" where
  "features names cols rs =
     map (\<lambda>r. map snd (filter (\<lambda>(c, _). c \<notin> set names) (zip cols (vals r)))) rs"

text \<open>
  The body of the inner loop, for one pair \<open>(w_k, s__k)\<close>:

  \<^verbatim>\<open>df_subset = df_train.query('t == @w_k | t == @s__k').copy()\<close>
  \<^verbatim>\<open>df_subset['t_binary'] = np.where(df_subset['t'] == w_k, 1, 0)\<close>
  \<^verbatim>\<open>X_treated = df_subset.drop(columns=['y', 't', 't_binary'] + treatment_cols)\<close>
  \<^verbatim>\<open>y_treated = df_subset['y']\<close>
  \<^verbatim>\<open>T_treated = df_subset['t_binary']\<close>
  \<^verbatim>\<open>ps = calculate_propensity_scores(X_treated, T_treated)\<close>
  \<^verbatim>\<open>dr_scores = calculate_doubly_robust_scores(X_treated, y_treated, T_treated, ps)\<close>
  \<^verbatim>\<open>dr_model = LinearRegression().fit(X_treated, dr_scores)\<close>
  \<^verbatim>\<open>y_hat_dr = dr_model.predict(X)\<close>
\<close>

definition df_subset :: "dataframe \<Rightarrow> string \<Rightarrow> string \<Rightarrow> obs list" where
  "df_subset df_train w_k s__k =
     filter (\<lambda>r. t_lab r = w_k \<or> t_lab r = s__k) (obs_rows df_train)"

definition t_binary :: "obs list \<Rightarrow> string \<Rightarrow> int list" where
  "t_binary rs w_k = map (\<lambda>r. if t_lab r = w_k then 1 else 0) rs"

definition pair_y_hat_dr ::
  "classifier \<Rightarrow> regressor \<Rightarrow> dataframe \<Rightarrow> string list \<Rightarrow> matrix \<Rightarrow> string \<Rightarrow> string
     \<Rightarrow> error + real list" where
  "pair_y_hat_dr clf reg df_train treatment_cols X w_k s__k =
     (let sub = df_subset df_train w_k s__k;
          X_treated = features treatment_cols (num_cols df_train) sub;
          y_treated = map y_val sub;
          T_treated = t_binary sub w_k
      in case calculate_propensity_scores clf X_treated T_treated of
           Inl e \<Rightarrow> Inl e
         | Inr ps \<Rightarrow>
        (case calculate_doubly_robust_scores reg X_treated y_treated T_treated ps of
           Inl e \<Rightarrow> Inl e
         | Inr dr_scores \<Rightarrow>
        (case LinearRegression_fit reg X_treated dr_scores of
           Inl e \<Rightarrow> Inl e
         | Inr dr_model \<Rightarrow> Inr (predict dr_model X))))"

text \<open>The inner loop: it appends one projected column per pair to \<open>y_hat_dr_list\<close>.\<close>

fun pair_loop ::
  "classifier \<Rightarrow> regressor \<Rightarrow> dataframe \<Rightarrow> string list \<Rightarrow> matrix \<Rightarrow> (string \<times> string) list
     \<Rightarrow> real list list \<Rightarrow> error + real list list" where
  "pair_loop clf reg df_train treatment_cols X [] y_hat_dr_list = Inr y_hat_dr_list"
| "pair_loop clf reg df_train treatment_cols X ((w_k, s__k) # pairs) y_hat_dr_list =
     (case pair_y_hat_dr clf reg df_train treatment_cols X w_k s__k of
        Inl e \<Rightarrow> Inl e
      | Inr y_hat_dr \<Rightarrow>
          pair_loop clf reg df_train treatment_cols X pairs (y_hat_dr_list @ [y_hat_dr]))"

text \<open>
  \<open>{w_k: scores for w_k, scores in zip(W_k, y_hat_dr_list)}\<close>: a dictionary keeps the
  position of a key's first insertion and the value of its last.
\<close>

fun dict_set :: "('k \<times> 'v) list \<Rightarrow> 'k \<Rightarrow> 'v \<Rightarrow> ('k \<times> 'v) list" where
  "dict_set [] k v = [(k, v)]"
| "dict_set ((k', v') # d) k v = (if k' = k then (k, v) # d else (k', v') # dict_set d k v)"

definition dict_of :: "('k \<times> 'v) list \<Rightarrow> ('k \<times> 'v) list" where
  "dict_of kvs = foldl (\<lambda>d (k, v). dict_set d k v) [] kvs"

text \<open>
  The aggregated scores of one treatment: the split of \<open>C\<close>, the inner loop, and

  \<^verbatim>\<open>dr_df = pd.DataFrame({w_k: scores for w_k, scores in zip(W_k, y_hat_dr_list)})\<close>
  \<^verbatim>\<open>aggregated_dr_scores = compute_weighted_dr_scores(dr_df, treatment_prob)\<close>
\<close>

definition aggregated_dr_scores ::
  "classifier \<Rightarrow> regressor \<Rightarrow> dataframe \<Rightarrow> string list \<Rightarrow> (string \<rightharpoonup> real) \<Rightarrow> string list
     \<Rightarrow> matrix \<Rightarrow> string \<Rightarrow> error + npfloat list" where
  "aggregated_dr_scores clf reg df_train C treatment_prob treatment_cols X treatment =
     (case pair_loop clf reg df_train treatment_cols X (matched_pairs C treatment) [] of
        Inl e \<Rightarrow> Inl e
      | Inr y_hat_dr_list \<Rightarrow>
          compute_weighted_dr_scores (dict_of (zip (W_k C treatment) y_hat_dr_list))
            treatment_prob)"

text \<open>
  The rest of the outer loop's body:

  \<^verbatim>\<open>ate_model = LinearRegression().fit(X, aggregated_dr_scores)\<close>
  \<^verbatim>\<open>ate = np.mean(ate_model.predict(X))\<close>
\<close>

definition final_regression :: "regressor \<Rightarrow> matrix \<Rightarrow> npfloat list \<Rightarrow> error + real" where
  "final_regression reg X agg =
     (case LinearRegression_fit reg X agg of
        Inl e \<Rightarrow> Inl e
      | Inr ate_model \<Rightarrow> Inr (np_mean (predict ate_model X)))"

definition treatment_ate ::
  "classifier \<Rightarrow> regressor \<Rightarrow> dataframe \<Rightarrow> string list \<Rightarrow> (string \<rightharpoonup> real) \<Rightarrow> string list
     \<Rightarrow> matrix \<Rightarrow> string \<Rightarrow> error + real" where
  "treatment_ate clf reg df_train C treatment_prob treatment_cols X treatment =
     (case aggregated_dr_scores clf reg df_train C treatment_prob treatment_cols X treatment of
        Inl e \<Rightarrow> Inl e
      | Inr agg \<Rightarrow> final_regression reg X agg)"

text \<open>
  The outer loop stores \<open>results[treatment] = ate\<close>; an exception raised in its body is
  caught nowhere and leaves \<open>calculate_ate\<close>.
\<close>

fun treatment_loop ::
  "(string \<Rightarrow> error + real) \<Rightarrow> string list \<Rightarrow> (string \<rightharpoonup> real) \<Rightarrow> error + (string \<rightharpoonup> real)" where
  "treatment_loop body [] results = Inr results"
| "treatment_loop body (treatment # rest) results =
     (case body treatment of
        Inl e \<Rightarrow> Inl e
      | Inr ate \<Rightarrow> treatment_loop body rest (results(treatment \<mapsto> ate)))"

text \<open>
  \<^verbatim>\<open>def calculate_ate(df_train, C, treatment_prob, treatments):\<close>
  \<^verbatim>\<open>    treatment_cols = [f'T{t}' for t in treatments]\<close>
  \<^verbatim>\<open>    X = df_train.drop(columns=['y', 't'] + treatment_cols)\<close>
  \<^verbatim>\<open>    results = {}\<close>
  \<^verbatim>\<open>    for treatment in treatments: ...\<close>
  \<^verbatim>\<open>    return results\<close>
\<close>

definition treatment_cols_of :: "string list \<Rightarrow> string list" where
  "treatment_cols_of treatments = map (\<lambda>t. ''T'' @ t) treatments"

definition calculate_ate ::
  "classifier \<Rightarrow> regressor \<Rightarrow> dataframe \<Rightarrow> string list \<Rightarrow> (string \<rightharpoonup> real) \<Rightarrow> string list
     \<Rightarrow> error + (string \<rightharpoonup> real)" where
  "calculate_ate clf reg df_train C treatment_prob treatments =
     (let treatment_cols = treatment_cols_of treatments in
      if missing_columns treatment_cols df_train then Inl KeyError
      else
        let X = features treatment_cols (num_cols df_train) (obs_rows df_train)
        in treatment_loop
             (treatment_ate clf reg df_train C treatment_prob treatment_cols X)
             treatments Map.empty)"

section \<open>Small training frames\<close>

text \<open>
  Frames small enough to run the program on by hand.  Their one covariate \<open>X1\<close> is zero
  for every unit, so that the intercept-only models above are the fits a least-squares
  regression and an unpenalised logistic regression return.  \<open>example_df\<close> has one unit
  for each combination of the treatments \<open>A\<close> and \<open>B\<close>, with the weights \<open>example_prob\<close>;
  in \<open>example_df_without_A\<close> no unit received \<open>A\<close> alone.
\<close>

definition example_df :: dataframe where
  "example_df = \<lparr>num_cols = [''X1'', ''TA'', ''TB''],
     obs_rows = [\<lparr>vals = [0, 0, 0], y_val = 1, t_lab = ''0''\<rparr>,
                 \<lparr>vals = [0, 1, 0], y_val = 3, t_lab = ''A''\<rparr>,
                 \<lparr>vals = [0, 0, 1], y_val = 0, t_lab = ''B''\<rparr>,
                 \<lparr>vals = [0, 1, 1], y_val = 2, t_lab = ''AB''\<rparr>]\<rparr>"

definition example_prob :: "string \<rightharpoonup> real" where
  "example_prob = map_of [(''0'', 1 / 4), (''A'', 1 / 4), (''B'', 1 / 4), (''AB'', 1 / 4)]"

definition example_df_without_A :: dataframe where
  "example_df_without_A = \<lparr>num_cols = [''X1'', ''TA'', ''TB''],
     obs_rows = [\<lparr>vals = [0, 0, 0], y_val = 1, t_lab = ''0''\<rparr>,
                 \<lparr>vals = [0, 0, 1], y_val = 0, t_lab = ''B''\<rparr>,
                 \<lparr>vals = [0, 1, 1], y_val = 2, t_lab = ''AB''\<rparr>]\<rparr>"

section \<open>Properties of the enumeration and the pairing\<close>

lemma combinations_subset: "c \<in> set (combinations xs r) \<Longrightarrow> set c \<subseteq> set xs \<and> length c = r"
  by (induction xs r arbitrary: c rule: combinations.induct) (simp, simp, fastforce)

lemma combinations_too_long: "length xs < r \<Longrightarrow> combinations xs r = []"
  by (induction xs r rule: combinations.induct) auto

lemma combinations_full: "combinations xs (length xs) = [xs]"
  by (induction xs) (auto simp: combinations_too_long)

lemma filter_with_notin:
  "k \<notin> set xs \<Longrightarrow> filter (\<lambda>w. k \<in> set w) (combinations xs r) = []"
  by (auto simp: filter_empty_conv dest: combinations_subset)

lemma filter_without_notin:
  "k \<notin> set xs \<Longrightarrow> filter (\<lambda>w. k \<notin> set w) (combinations xs r) = combinations xs r"
  by (auto simp: filter_id_conv dest: combinations_subset)

lemma remove_from_with:
  "distinct xs \<Longrightarrow> k \<in> set xs \<Longrightarrow>
   map (remove1 k) (filter (\<lambda>w. k \<in> set w) (combinations xs (Suc r)))
     = filter (\<lambda>w. k \<notin> set w) (combinations xs r)"
proof (induction xs arbitrary: r)
  case Nil
  then show ?case by simp
next
  case (Cons x xs)
  show ?case
  proof (cases "x = k")
    case True
    with Cons.prems have nin: "k \<notin> set xs" by simp
    have "map (remove1 k) (filter (\<lambda>w. k \<in> set w) (combinations (x # xs) (Suc r)))
          = combinations xs r"
      using True nin by (simp add: filter_with_notin filter_map o_def)
    moreover have "filter (\<lambda>w. k \<notin> set w) (combinations (x # xs) r) = combinations xs r"
      using True nin by (cases r) (simp_all add: filter_without_notin filter_map o_def)
    ultimately show ?thesis by simp
  next
    case False
    with Cons.prems have kin: "k \<in> set xs" and dist: "distinct xs" by auto
    note IH = Cons.IH [OF dist kin]
    show ?thesis
    proof (cases r)
      case 0
      then show ?thesis using False IH [of 0] by (simp add: filter_map o_def)
    next
      case (Suc r')
      have "map (remove1 k) (filter (\<lambda>w. k \<in> set w) (map ((#) x) (combinations xs (Suc r'))))
            = map ((#) x) (map (remove1 k) (filter (\<lambda>w. k \<in> set w) (combinations xs (Suc r'))))"
        using False by (simp add: filter_map o_def)
      then show ?thesis using False Suc IH [of r'] IH [of "Suc r'"]
        by (simp add: filter_map o_def)
    qed
  qed
qed

lemma upt_Suc_shift: "map f [0..<Suc m] = f 0 # map (\<lambda>r. f (Suc r)) [0..<m]"
  by (simp add: upt_conv_Cons map_Suc_upt [symmetric] del: upt_Suc)

lemma with_split:
  "filter (\<lambda>w. k \<in> set w) (all_combinations ts)
     = concat (map (\<lambda>r. filter (\<lambda>w. k \<in> set w) (combinations ts (Suc r))) [0..<length ts])"
  unfolding all_combinations_def
  by (simp add: filter_concat upt_Suc_shift o_def del: upt_Suc)

lemma without_split:
  "k \<in> set ts \<Longrightarrow> filter (\<lambda>w. k \<notin> set w) (all_combinations ts)
     = concat (map (\<lambda>r. filter (\<lambda>w. k \<notin> set w) (combinations ts r)) [0..<length ts])"
  unfolding all_combinations_def
  by (simp add: filter_concat combinations_full o_def)

lemma remove_with_eq_without:
  assumes "distinct ts" "k \<in> set ts"
  shows "map (remove1 k) (filter (\<lambda>w. k \<in> set w) (all_combinations ts))
           = filter (\<lambda>w. k \<notin> set w) (all_combinations ts)"
  by (simp add: with_split without_split [OF assms(2)] map_concat o_def
        remove_from_with [OF assms])


lemma Nil_in_subseqs: "[] \<in> set (subseqs xs)"
  by (induction xs) (auto simp: Let_def)

lemma length_subseq_le: "c \<in> set (subseqs xs) \<Longrightarrow> length c \<le> length xs"
  by (induction xs arbitrary: c) (auto simp: Let_def le_SucI)

lemma set_combinations:
  "set (combinations xs r) = {c \<in> set (subseqs xs). length c = r}"
proof (induction xs r rule: combinations.induct)
  case (1 xs)
  then show ?case using Nil_in_subseqs [of xs] by auto
next
  case (2 r)
  then show ?case by auto
next
  case (3 x xs r)
  then show ?case by (auto simp: Let_def)
qed

lemma set_all_combinations: "set (all_combinations ts) = set (subseqs ts)"
proof -
  have "set (all_combinations ts) = (\<Union>r\<in>{0..<Suc (length ts)}. {c \<in> set (subseqs ts). length c = r})"
    unfolding all_combinations_def by (simp add: set_combinations del: upt_Suc)
  also have "\<dots> = set (subseqs ts)"
    using length_subseq_le [of _ ts] by (auto simp: less_Suc_eq_le)
  finally show ?thesis .
qed

lemma all_combinations_powset: "set ` set (all_combinations ts) = Pow (set ts)"
  by (simp add: set_all_combinations subseqs_powset)

lemma length_all_combinations:
  assumes "distinct ts" "distinct (all_combinations ts)"
  shows "length (all_combinations ts) = 2 ^ length ts"
proof -
  have "distinct (subseqs ts)"
    using distinct_set_subseqs [OF assms(1)] by (simp add: distinct_map)
  then have "card (set (subseqs ts)) = 2 ^ length ts"
    by (simp add: distinct_card length_subseqs)
  moreover have "card (set (all_combinations ts)) = length (all_combinations ts)"
    using assms(2) by (rule distinct_card)
  ultimately show ?thesis by (simp add: set_all_combinations)
qed

lemma W_k_codes:
  assumes "\<forall>c\<in>set (all_combinations ts). str_in k (comb_code c) = (k \<in> set c)"
  shows "W_k (C_of ts) k = map comb_code (filter (\<lambda>w. k \<in> set w) (all_combinations ts))"
  unfolding W_k_def C_of_def filter_map o_def
  using assms by (simp cong: filter_cong)

lemma S__k_codes:
  assumes "\<forall>c\<in>set (all_combinations ts). str_in k (comb_code c) = (k \<in> set c)"
  shows "S__k (C_of ts) k = map comb_code (filter (\<lambda>w. k \<notin> set w) (all_combinations ts))"
  unfolding S__k_def C_of_def filter_map o_def
  using assms by (simp cong: filter_cong)

lemma mset_W_S: "mset (W_k C k @ S__k C k) = mset C"
  unfolding W_k_def S__k_def by simp

text \<open>
  Claim C1, as the code supports it.  Let the labels be distinct, and let the string
  encoding be unambiguous for treatment \<open>k\<close>: \<open>k\<close> occurs as a substring of a combination's
  code exactly when it is a member of the combination, and no code occurs twice in \<open>C\<close>
  (both hold for distinct single-character labels other than \<open>'0'\<close>, see
  \<open>single_char_unambiguous\<close>).  Then zipping the with-\<open>k\<close> codes with the without-\<open>k\<close>
  codes, in the enumeration order of \<open>C\<close>, pairs every combination \<open>w\<close> containing \<open>k\<close> with
  \<open>w\<close> minus \<open>k\<close>; the pairs use every with-\<open>k\<close> code and every without-\<open>k\<close> code exactly
  once, the two lists together are a rearrangement of \<open>C\<close> without repetition, and the
  enumerated combinations are the \<open>2 ^ m\<close> subsets of the treatment set.
\<close>

theorem pairing_bijection:
  assumes "distinct ts" and "k \<in> set ts"
    and "\<forall>c\<in>set (all_combinations ts). str_in k (comb_code c) = (k \<in> set c)"
    and "distinct (C_of ts)"
  shows "matched_pairs (C_of ts) k
           = map (\<lambda>w. (comb_code w, comb_code (remove1 k w)))
               (filter (\<lambda>w. k \<in> set w) (all_combinations ts))
       \<and> map fst (matched_pairs (C_of ts) k) = W_k (C_of ts) k
       \<and> map snd (matched_pairs (C_of ts) k) = S__k (C_of ts) k
       \<and> distinct (W_k (C_of ts) k @ S__k (C_of ts) k)
       \<and> mset (W_k (C_of ts) k @ S__k (C_of ts) k) = mset (C_of ts)
       \<and> set ` set (all_combinations ts) = Pow (set ts)
       \<and> length (C_of ts) = 2 ^ length ts"
proof -
  let ?W = "filter (\<lambda>w. k \<in> set w) (all_combinations ts)"
  let ?S = "filter (\<lambda>w. k \<notin> set w) (all_combinations ts)"
  have W: "W_k (C_of ts) k = map comb_code ?W" by (rule W_k_codes [OF assms(3)])
  have S: "S__k (C_of ts) k = map comb_code ?S" by (rule S__k_codes [OF assms(3)])
  have rm: "map (remove1 k) ?W = ?S" by (rule remove_with_eq_without [OF assms(1,2)])
  have S': "S__k (C_of ts) k = map (\<lambda>w. comb_code (remove1 k w)) ?W"
    unfolding S rm [symmetric] by (simp add: o_def)
  have pairs: "matched_pairs (C_of ts) k
           = map (\<lambda>w. (comb_code w, comb_code (remove1 k w))) ?W"
    unfolding matched_pairs_def W S' by (simp add: zip_map_map zip_same_conv_map)
  have len: "length (W_k (C_of ts) k) = length (S__k (C_of ts) k)"
    unfolding W S' by simp
  have fsts: "map fst (matched_pairs (C_of ts) k) = W_k (C_of ts) k"
    unfolding matched_pairs_def using len by simp
  have snds: "map snd (matched_pairs (C_of ts) k) = S__k (C_of ts) k"
    unfolding matched_pairs_def using len by simp
  have ms: "mset (W_k (C_of ts) k @ S__k (C_of ts) k) = mset (C_of ts)"
    by (rule mset_W_S)
  have dist: "distinct (W_k (C_of ts) k @ S__k (C_of ts) k)"
    using assms(4) ms by (metis distinct_count_atmost_1 set_mset_mset)
  have dc: "distinct (all_combinations ts)"
    using assms(4) unfolding C_of_def by (simp add: distinct_map)
  have lenC: "length (C_of ts) = 2 ^ length ts"
    unfolding C_of_def using length_all_combinations [OF assms(1) dc] by simp
  show ?thesis
    using pairs fsts snds dist ms all_combinations_powset lenC by blast
qed


lemma distinct_combinations: "distinct xs \<Longrightarrow> distinct (combinations xs r)"
proof (induction xs r rule: combinations.induct)
  case (3 x xs r)
  then show ?case
    by (auto simp: distinct_map dest: combinations_subset)
qed simp_all

lemma distinct_upto_size:
  "distinct xs \<Longrightarrow> distinct (concat (map (combinations xs) [0..<n]))"
proof (induction n)
  case 0
  then show ?case by simp
next
  case (Suc n)
  have "length c < n" if "c \<in> set (concat (map (combinations xs) [0..<n]))" for c
    using that combinations_subset [of c xs] by auto
  moreover have "length c = n" if "c \<in> set (combinations xs n)" for c
    using that combinations_subset [of c xs n] by simp
  ultimately have "set (concat (map (combinations xs) [0..<n])) \<inter> set (combinations xs n) = {}"
    by fastforce
  with Suc show ?case
    by (simp add: distinct_combinations)
qed

lemma distinct_all_combinations: "distinct ts \<Longrightarrow> distinct (all_combinations ts)"
  unfolding all_combinations_def using distinct_upto_size [of ts "length ts + 1"] by simp

lemma startswith_single: "startswith s [x] = (s \<noteq> [] \<and> hd s = x)"
  by (cases s) auto

lemma str_in_single: "str_in [x] s = (x \<in> set s)"
  by (induction s) (auto simp: startswith_single)

lemma concat_singles:
  "\<forall>t\<in>set c. length t = 1 \<Longrightarrow> map (\<lambda>x. [x]) (concat c) = c"
proof (induction c)
  case (Cons t c)
  then obtain x where "t = [x]" by (cases t) auto
  with Cons show ?case by simp
qed simp

lemma single_char_unambiguous:
  assumes "distinct ts" and "\<forall>t\<in>set ts. length t = 1" and "''0'' \<notin> set ts"
  shows "(\<forall>k\<in>set ts. \<forall>c\<in>set (all_combinations ts). str_in k (comb_code c) = (k \<in> set c))
         \<and> distinct (C_of ts)"
proof -
  have sub: "set c \<subseteq> set ts" if "c \<in> set (all_combinations ts)" for c
    using that all_combinations_powset [of ts] by blast
  have singles: "\<forall>t\<in>set c. length t = 1" if "c \<in> set (all_combinations ts)" for c
    using sub [OF that] assms(2) by blast
  have member: "str_in k (comb_code c) = (k \<in> set c)"
    if k: "k \<in> set ts" and c: "c \<in> set (all_combinations ts)" for k c
  proof -
    from k assms(2) have "length k = 1" by blast
    then obtain x where kx: "k = [x]" by (cases k) auto
    show ?thesis
    proof (cases "concat c = []")
      case True
      with singles [OF c] have "c = []" by (cases c) auto
      moreover have "k \<noteq> ''0''" using k assms(3) by auto
      ultimately show ?thesis using kx by (simp add: comb_code_def)
    next
      case False
      have "(x \<in> set (concat c)) = ([x] \<in> set c)"
      proof
        assume "x \<in> set (concat c)"
        then have "[x] \<in> set (map (\<lambda>x. [x]) (concat c))" by simp
        then show "[x] \<in> set c" by (simp only: concat_singles [OF singles [OF c]])
      next
        assume "[x] \<in> set c"
        then show "x \<in> set (concat c)" by force
      qed
      moreover from False have "comb_code c = concat c" by (auto simp: comb_code_def)
      ultimately show ?thesis by (simp only: kx str_in_single)
    qed
  qed
  have inj: "inj_on comb_code (set (all_combinations ts))"
  proof (rule inj_onI)
    fix c d assume c: "c \<in> set (all_combinations ts)" and d: "d \<in> set (all_combinations ts)"
      and eq: "comb_code c = comb_code d"
    have cc: "map (\<lambda>x. [x]) (concat c) = c" by (rule concat_singles [OF singles [OF c]])
    have dd: "map (\<lambda>x. [x]) (concat d) = d" by (rule concat_singles [OF singles [OF d]])
    have no0: "concat e \<noteq> ''0''" if e: "e \<in> set (all_combinations ts)" for e
    proof
      assume "concat e = ''0''"
      then have "map (\<lambda>x. [x]) (concat e) = [''0'']" by simp
      then have "e = [''0'']" by (simp only: concat_singles [OF singles [OF e]])
      then show False using sub [OF e] assms(3) by auto
    qed
    have "concat c = concat d"
      using eq no0 [OF c] no0 [OF d]
      by (auto simp: comb_code_def Let_def simp del: concat_eq_Nil_conv Nil_eq_concat_conv
            split: if_splits)
    then show "c = d" using cc dd by metis
  qed
  have "distinct (C_of ts)"
    unfolding C_of_def using inj distinct_all_combinations [OF assms(1)]
    by (simp add: distinct_map)
  with member show ?thesis by blast
qed

text \<open>The theorem at the notebook's treatments \<open>A, B, C\<close> and treatment \<open>B\<close>.\<close>

theorem pairing_bijection_witness:
  "distinct [''A'', ''B'', ''C''] \<and> ''B'' \<in> set [''A'', ''B'', ''C'']
   \<and> map fst (matched_pairs (C_of [''A'', ''B'', ''C'']) ''B'') = W_k (C_of [''A'', ''B'', ''C'']) ''B''
   \<and> matched_pairs (C_of [''A'', ''B'', ''C'']) ''B''
       = [(''B'', ''0''), (''AB'', ''A''), (''BC'', ''C''), (''ABC'', ''AC'')]"
proof -
  have d: "distinct [''A'', ''B'', ''C'']" by simp
  have k: "''B'' \<in> set [''A'', ''B'', ''C'']" by simp
  have u: "\<forall>c\<in>set (all_combinations [''A'', ''B'', ''C'']).
             str_in ''B'' (comb_code c) = (''B'' \<in> set c)"
    by code_simp
  have c: "distinct (C_of [''A'', ''B'', ''C''])" by code_simp
  have e: "map (\<lambda>w. (comb_code w, comb_code (remove1 ''B'' w)))
               (filter (\<lambda>w. ''B'' \<in> set w) (all_combinations [''A'', ''B'', ''C'']))
      = [(''B'', ''0''), (''AB'', ''A''), (''BC'', ''C''), (''ABC'', ''AC'')]"
    by code_simp
  note p = pairing_bijection [OF d k u c]
  from p have p1: "matched_pairs (C_of [''A'', ''B'', ''C'']) ''B''
      = [(''B'', ''0''), (''AB'', ''A''), (''BC'', ''C''), (''ABC'', ''AC'')]"
    unfolding e by (rule conjunct1)
  from p have p2: "map fst (matched_pairs (C_of [''A'', ''B'', ''C'']) ''B'')
      = W_k (C_of [''A'', ''B'', ''C'']) ''B''"
    by (rule conjunct1 [OF conjunct2])
  from d k p2 p1 show ?thesis by (intro conjI)
qed

text \<open>
  Claim C1 as stated, for every treatment set, fails when one label is a substring of
  another: with the treatments \<open>A\<close> and \<open>AB\<close> the combination that holds only \<open>AB\<close> is
  counted as containing \<open>A\<close>, and the single pair formed leaves the combination
  \<open>{A, AB}\<close> (code \<open>AAB\<close>) unpaired.
\<close>

theorem pairing_overlapping_labels_counterexample:
  "distinct [''A'', ''AB''] \<and> ''A'' \<in> set [''A'', ''AB'']
   \<and> C_of [''A'', ''AB''] = [''0'', ''A'', ''AB'', ''AAB'']
   \<and> W_k (C_of [''A'', ''AB'']) ''A'' = [''A'', ''AB'', ''AAB'']
   \<and> S__k (C_of [''A'', ''AB'']) ''A'' = [''0'']
   \<and> matched_pairs (C_of [''A'', ''AB'']) ''A'' = [(''A'', ''0'')]
   \<and> matched_pairs (C_of [''A'', ''AB'']) ''A'' \<noteq> [(''A'', ''0''), (''AAB'', ''AB'')]"
  by code_simp

section \<open>Properties of the doubly robust scores\<close>

lemma mask_nonempty:
  "length T = length V \<Longrightarrow> v \<in> set T \<Longrightarrow> mask T v V \<noteq> []"
proof -
  assume len: "length T = length V" and v: "v \<in> set T"
  then obtain i where i: "i < length T" "T ! i = v" by (auto simp: in_set_conv_nth)
  with len have "(v, V ! i) \<in> set (zip T V)" by (auto simp: set_zip)
  then have "(v, V ! i) \<in> set (filter (\<lambda>(t, _). t = v) (zip T V))" by simp
  then show ?thesis unfolding mask_def by (auto simp: filter_empty_conv)
qed

lemma LinearRegression_fit_finite:
  "X \<noteq> [] \<Longrightarrow> LinearRegression_fit reg X (map Some y) = Inr (reg X y)"
  by (auto simp: LinearRegression_fit_def o_def)

lemma dr_scores_unfold:
  assumes "length T = length X" and "0 \<in> set T" and "1 \<in> set T"
  shows "calculate_doubly_robust_scores reg X y T ps =
     Inr (map2 np_sub
       (map2 np_add (predict (reg (mask T 1 X) (mask T 1 y)) X)
          (map2 np_div (map2 (\<lambda>t r. real_of_int t * r) T
             (map2 (-) y (predict (reg (mask T 1 X) (mask T 1 y)) X))) ps))
       (map2 np_add (predict (reg (mask T 0 X) (mask T 0 y)) X)
          (map2 np_div (map2 (\<lambda>t r. real_of_int t * r) (map (\<lambda>t. 1 - t) T)
             (map2 (-) y (predict (reg (mask T 0 X) (mask T 0 y)) X))) (map (\<lambda>p. 1 - p) ps))))"
  unfolding calculate_doubly_robust_scores_def
  using mask_nonempty [OF assms(1) assms(2)] mask_nonempty [OF assms(1) assms(3)]
  by (simp add: LinearRegression_fit_finite Let_def)

text \<open>
  Claim C2.  On aligned inputs over a matched-pair subset in which both arms occur, and
  with every propensity strictly between 0 and 1, \<open>calculate_doubly_robust_scores\<close>
  returns, and its value for each unit is
  \<open>(m1_hat + T * (y - m1_hat) / ps) - (m0_hat + (1 - T) * (y - m0_hat) / (1 - ps))\<close>,
  where \<open>m0_hat\<close> and \<open>m1_hat\<close> are the predictions of the regressions fitted on the
  units of arm 0 and of arm 1.
\<close>

theorem doubly_robust_formula:
  assumes "length y = length X" and "length T = length X" and "length ps = length X"
    and "0 \<in> set T" and "1 \<in> set T"
    and "\<forall>p\<in>set ps. 0 < p \<and> p < 1"
  shows "\<exists>dr. calculate_doubly_robust_scores reg X y T ps = Inr dr \<and> length dr = length X \<and>
     (\<forall>i<length X. dr ! i = Some (
        (predict (reg (mask T 1 X) (mask T 1 y)) X ! i
           + real_of_int (T ! i) * (y ! i - predict (reg (mask T 1 X) (mask T 1 y)) X ! i) / ps ! i)
      - (predict (reg (mask T 0 X) (mask T 0 y)) X ! i
           + real_of_int (1 - T ! i) * (y ! i - predict (reg (mask T 0 X) (mask T 0 y)) X ! i)
               / (1 - ps ! i))))"
proof -
  have ps: "ps ! i \<noteq> 0 \<and> 1 - ps ! i \<noteq> 0" if "i < length X" for i
  proof -
    from that assms(3) have "ps ! i \<in> set ps" by simp
    with assms(6) show ?thesis by fastforce
  qed
  show ?thesis
    unfolding dr_scores_unfold [OF assms(2,4,5)]
    using assms(1,2,3) ps by (simp add: predict_def np_div_def)
qed

text \<open>
  The formula on two units, one per arm, with propensity one half.
\<close>

theorem doubly_robust_formula_witness:
  "length [1, 3 :: real] = length [[0], [0 :: real]]
   \<and> length [0, 1 :: int] = length [[0], [0 :: real]]
   \<and> length [1 / 2, 1 / 2 :: real] = length [[0], [0 :: real]]
   \<and> (0 :: int) \<in> set [0, 1] \<and> (1 :: int) \<in> set [0, 1]
   \<and> (0 :: real) < 1 / 2 \<and> (1 / 2 :: real) < 1
   \<and> (\<exists>dr. calculate_doubly_robust_scores mean_regressor [[0], [0]] [1, 3] [0, 1] [1 / 2, 1 / 2]
             = Inr dr \<and> length dr = 2)"
proof -
  have h1: "length [1, 3 :: real] = length [[0], [0 :: real]]" by simp
  have h2: "length [0, 1 :: int] = length [[0], [0 :: real]]" by simp
  have h3: "length [1 / 2, 1 / 2 :: real] = length [[0], [0 :: real]]" by simp
  have h4: "(0 :: int) \<in> set [0, 1]" by simp
  have h5: "(1 :: int) \<in> set [0, 1]" by simp
  have h6: "\<forall>p\<in>set [1 / 2, 1 / 2 :: real]. 0 < p \<and> p < 1" by simp
  from doubly_robust_formula [OF h1 h2 h3 h4 h5 h6, of mean_regressor]
  obtain dr where a: "calculate_doubly_robust_scores mean_regressor [[0], [0]] [1, 3] [0, 1]
                          [1 / 2, 1 / 2] = Inr dr"
    and b: "length dr = length [[0], [0 :: real]]" by (elim exE conjE)
  from b have "length dr = 2" by simp
  with a have "\<exists>dr. calculate_doubly_robust_scores mean_regressor [[0], [0]] [1, 3] [0, 1]
                   [1 / 2, 1 / 2] = Inr dr \<and> length dr = 2" by (intro exI conjI)
  moreover have "(0 :: real) < 1 / 2" and "(1 / 2 :: real) < 1" by simp_all
  ultimately show ?thesis using h1 h2 h3 h4 h5 by (intro conjI)
qed








lemma constant_one_class: "\<forall>x\<in>set T. x = c \<Longrightarrow> length (remdups T) < 2"
proof -
  assume "\<forall>x\<in>set T. x = c"
  then have "set T \<subseteq> {c}" by auto
  then have "card (set T) \<le> card {c}" by (intro card_mono) simp_all
  then show ?thesis by (simp add: length_remdups_card_conv)
qed

text \<open>
  Claim C5, as the code supports it.  For a pair whose restricted subset has no unit in
  one arm (the arm indicator is constant on it, or the subset is empty), the propensity
  step raises the \<open>ValueError\<close> of scikit-learn's input validation, and the pair yields
  no projected scores: the body of the inner loop raises that error.
\<close>

theorem empty_arm_raises_ValueError:
  assumes "(\<forall>r\<in>set (df_subset df_train w_k s__k). t_lab r = w_k)
         \<or> (\<forall>r\<in>set (df_subset df_train w_k s__k). t_lab r \<noteq> w_k)"
  shows "calculate_propensity_scores clf
           (features treatment_cols (num_cols df_train) (df_subset df_train w_k s__k))
           (t_binary (df_subset df_train w_k s__k) w_k) = Inl ValueError
       \<and> pair_y_hat_dr clf reg df_train treatment_cols X w_k s__k = Inl ValueError"
proof -
  let ?T = "t_binary (df_subset df_train w_k s__k) w_k"
  from assms have "length (remdups ?T) < 2"
  proof
    assume "\<forall>r\<in>set (df_subset df_train w_k s__k). t_lab r = w_k"
    then have "\<forall>x\<in>set ?T. x = 1" by (simp add: t_binary_def)
    then show ?thesis by (rule constant_one_class)
  next
    assume "\<forall>r\<in>set (df_subset df_train w_k s__k). t_lab r \<noteq> w_k"
    then have "\<forall>x\<in>set ?T. x = 0" by (simp add: t_binary_def)
    then show ?thesis by (rule constant_one_class)
  qed
  then have ps: "calculate_propensity_scores clf
           (features treatment_cols (num_cols df_train) (df_subset df_train w_k s__k)) ?T
           = Inl ValueError"
    by (simp add: calculate_propensity_scores_def LogisticRegression_fit_def)
  then show ?thesis by (simp add: pair_y_hat_dr_def Let_def)
qed

text \<open>
  The pair \<open>(A, 0)\<close> on a frame in which no unit received \<open>A\<close> alone.
\<close>

theorem empty_arm_raises_ValueError_witness:
  "((\<forall>r\<in>set (df_subset example_df_without_A ''A'' ''0''). t_lab r = ''A'')
      \<or> (\<forall>r\<in>set (df_subset example_df_without_A ''A'' ''0''). t_lab r \<noteq> ''A''))
   \<and> pair_y_hat_dr base_rate_classifier mean_regressor example_df_without_A [''TA'', ''TB'']
         [[0], [0], [0]] ''A'' ''0'' = Inl ValueError"
proof -
  have h: "(\<forall>r\<in>set (df_subset example_df_without_A ''A'' ''0''). t_lab r = ''A'')
      \<or> (\<forall>r\<in>set (df_subset example_df_without_A ''A'' ''0''). t_lab r \<noteq> ''A'')"
    by code_simp
  from empty_arm_raises_ValueError [OF h]
  have "pair_y_hat_dr base_rate_classifier mean_regressor example_df_without_A [''TA'', ''TB'']
         [[0], [0], [0]] ''A'' ''0'' = Inl ValueError"
    by (rule conjunct2)
  with h show ?thesis by (intro conjI)
qed

text \<open>
  Claim C5 as stated fails on the name of the exception: with a one-armed subset the
  error raised is \<open>ValueError\<close>, not \<open>InsufficientDataError\<close>.
\<close>

theorem empty_arm_counterexample:
  "calculate_propensity_scores base_rate_classifier [[0]] [0] = Inl ValueError
   \<and> calculate_propensity_scores base_rate_classifier [[0]] [0] \<noteq> Inl InsufficientDataError
   \<and> pair_y_hat_dr base_rate_classifier mean_regressor example_df_without_A [''TA'', ''TB'']
         [[0], [0], [0]] ''A'' ''0'' \<noteq> Inl InsufficientDataError"
  by code_simp

section \<open>Properties of the weighted aggregation\<close>

lemma valid_weights_filter:
  "valid_weights ds tp = map (\<lambda>(c, s). (c, the (tp c))) (filter (\<lambda>(c, s). tp c \<noteq> None) ds)"
  unfolding valid_weights_def by (induction ds) (auto split: option.splits)

lemma foldl_plus: "foldl (+) (a::real) ws = a + sum_list ws"
  by (induction ws arbitrary: a) simp_all

lemma weighted_sum_fold:
  assumes "\<forall>(c, w)\<in>set rest. length (col c) = length acc"
  shows "length (foldl (\<lambda>acc (c, w). map2 (+) acc (map (\<lambda>x. x * w) (col c))) acc rest)
           = length acc
       \<and> (\<forall>i<length acc.
            foldl (\<lambda>acc (c, w). map2 (+) acc (map (\<lambda>x. x * w) (col c))) acc rest ! i
              = acc ! i + sum_list (map (\<lambda>(c, w). col c ! i * (w::real)) rest))"
  using assms
proof (induction rest arbitrary: acc)
  case Nil
  then show ?case by simp
next
  case (Cons cw rest)
  let ?f = "\<lambda>acc (c, w). map2 (+) acc (map (\<lambda>x. x * w) (col c))"
  obtain c w where cw: "cw = (c, w)" by (cases cw)
  let ?acc = "map2 (+) acc (map (\<lambda>x. x * w) (col c))"
  from Cons.prems cw have lc: "length (col c) = length acc" by simp
  then have la: "length ?acc = length acc" by simp
  have step: "foldl ?f acc (cw # rest) = foldl ?f ?acc rest" by (simp add: cw)
  have "\<forall>(c, w)\<in>set rest. length (col c) = length ?acc"
    using Cons.prems la by auto
  from Cons.IH [OF this]
  have L: "length (foldl ?f ?acc rest) = length ?acc"
    and N: "\<forall>i<length ?acc. foldl ?f ?acc rest ! i
              = ?acc ! i + sum_list (map (\<lambda>(c, w). col c ! i * w) rest)"
    by blast+
  have "foldl ?f acc (cw # rest) ! i
          = acc ! i + sum_list (map (\<lambda>(c, w). col c ! i * w) (cw # rest))"
    if i: "i < length acc" for i
  proof -
    from i lc have "?acc ! i = acc ! i + col c ! i * w" by simp
    with N i la show ?thesis unfolding step by (simp add: cw)
  qed
  with L la show ?case unfolding step by simp
qed

lemma weighted_scores_value:
  assumes "distinct (map fst dr_scores)"
    and "\<forall>(c, s)\<in>set dr_scores. length s = n"
    and "valid_weights dr_scores tp \<noteq> []"
  shows "\<exists>agg. compute_weighted_dr_scores dr_scores tp = Inr agg \<and> length agg = n \<and>
     (\<forall>i<n. agg ! i =
        np_div (sum_list (map (\<lambda>(c, s). s ! i * the (tp c))
                    (filter (\<lambda>(c, s). tp c \<noteq> None) dr_scores)))
               (sum_list (map (\<lambda>(c, s). the (tp c))
                    (filter (\<lambda>(c, s). tp c \<noteq> None) dr_scores))))"
proof -
  let ?valid = "filter (\<lambda>(c, s). tp c \<noteq> None) dr_scores"
  have col: "column dr_scores c = s" if "(c, s) \<in> set dr_scores" for c s
    using that assms(1) by (simp add: column_def)
  have collen: "length (column dr_scores c) = n" if "(c, s) \<in> set dr_scores" for c s
    using col [OF that] assms(2) that by auto
  obtain c0 w0 rest where v: "valid_weights dr_scores tp = (c0, w0) # rest"
    using assms(3) by (cases "valid_weights dr_scores tp") auto
  have mem: "\<exists>s. (c, s) \<in> set dr_scores" if "(c, w) \<in> set (valid_weights dr_scores tp)" for c w
    using that unfolding valid_weights_filter by auto
  have len0: "length (column dr_scores c0) = n"
  proof -
    have "(c0, w0) \<in> set (valid_weights dr_scores tp)" by (simp add: v)
    from mem [OF this] obtain s where "(c0, s) \<in> set dr_scores" by blast
    from collen [OF this] show ?thesis .
  qed
  have lenr: "\<forall>(c, w)\<in>set rest. length (column dr_scores c)
                = length (map (\<lambda>x. 0 + x * w0) (column dr_scores c0))"
  proof (intro ballI, clarify)
    fix c w assume "(c, w) \<in> set rest"
    then have "(c, w) \<in> set (valid_weights dr_scores tp)" by (simp add: v)
    from mem [OF this] obtain s where "(c, s) \<in> set dr_scores" by blast
    from collen [OF this] len0
    show "length (column dr_scores c) = length (map (\<lambda>x. 0 + x * w0) (column dr_scores c0))"
      by simp
  qed
  note fold = weighted_sum_fold [OF lenr]
  have sums: "sum_list (map (\<lambda>(c, w). column dr_scores c ! i * w) (valid_weights dr_scores tp))
      = sum_list (map (\<lambda>(c, s). s ! i * the (tp c)) ?valid)" for i
  proof -
    have "map (\<lambda>(c, w). column dr_scores c ! i * w) (valid_weights dr_scores tp)
        = map (\<lambda>(c, s). s ! i * the (tp c)) ?valid"
      unfolding valid_weights_filter using col by (auto simp: o_def)
    then show ?thesis by simp
  qed
  have tot: "foldl (+) 0 (map snd (valid_weights dr_scores tp))
      = sum_list (map (\<lambda>(c, s). the (tp c)) ?valid)"
    unfolding foldl_plus valid_weights_filter by (simp add: o_def case_prod_unfold)
  let ?ws = "foldl (\<lambda>acc (col, w). map2 (+) acc (map (\<lambda>x. x * w) (column dr_scores col)))
                  (map (\<lambda>x. 0 + x * w0) (column dr_scores c0)) rest"
  let ?total = "foldl (+) 0 (map snd (valid_weights dr_scores tp))"
  have res: "compute_weighted_dr_scores dr_scores tp = Inr (map (\<lambda>v. np_div v ?total) ?ws)"
    unfolding compute_weighted_dr_scores_def v by (simp add: Let_def)
  from fold len0 have lws: "length ?ws = n" by simp
  have nth: "?ws ! i = sum_list (map (\<lambda>(c, s). s ! i * the (tp c)) ?valid)" if "i < n" for i
  proof -
    from fold len0 that
    have "?ws ! i = column dr_scores c0 ! i * w0
                    + sum_list (map (\<lambda>(c, w). column dr_scores c ! i * w) rest)"
      by simp
    also have "\<dots> = sum_list (map (\<lambda>(c, w). column dr_scores c ! i * w)
                          (valid_weights dr_scores tp))"
      unfolding v by simp
    finally show ?thesis unfolding sums .
  qed
  show ?thesis
    unfolding res using lws nth tot by simp
qed

lemma sum_list_pos_member:
  "\<forall>x\<in>set xs. (0::real) \<le> x \<Longrightarrow> x \<in> set xs \<Longrightarrow> 0 < x \<Longrightarrow> 0 < sum_list xs"
proof (induction xs)
  case Nil
  then show ?case by simp
next
  case (Cons a xs)
  then have nn: "0 \<le> sum_list xs" and a: "0 \<le> a" by (simp_all add: sum_list_nonneg)
  show ?case
  proof (cases "x = a")
    case True
    with Cons.prems nn show ?thesis by simp
  next
    case False
    with Cons have "0 < sum_list xs" by simp
    with a show ?thesis by simp
  qed
qed

lemma all_zero_sum: "\<forall>x\<in>set xs. x = (0::real) \<Longrightarrow> sum_list xs = 0"
  by (induction xs) simp_all

lemma valid_weights_empty:
  "(valid_weights dr_scores tp = []) = (\<forall>(c, s)\<in>set dr_scores. tp c = None)"
  unfolding valid_weights_filter by (auto simp: filter_empty_conv)

text \<open>
  Claim C3.  Let the score frame have distinct column labels and columns of length \<open>n\<close>,
  let the table hold no negative weight, and let some column have a nonzero weight in
  it.  Then \<open>compute_weighted_dr_scores\<close> returns, and for every unit its value is the sum
  of \<open>score * weight\<close> over the columns that appear in the table, divided by the sum of
  the weights of those same columns; columns absent from the table enter neither sum.
\<close>

theorem weighted_aggregation_formula:
  assumes "distinct (map fst dr_scores)"
    and "\<forall>(c, s)\<in>set dr_scores. length s = n"
    and "\<forall>c w. treatment_prob c = Some w \<longrightarrow> 0 \<le> w"
    and "\<exists>(c, s)\<in>set dr_scores. \<exists>w. treatment_prob c = Some w \<and> w \<noteq> 0"
  shows "\<exists>agg. compute_weighted_dr_scores dr_scores treatment_prob = Inr agg \<and> length agg = n \<and>
     (\<forall>i<n. agg ! i = Some (
        sum_list (map (\<lambda>(c, s). s ! i * the (treatment_prob c))
                    (filter (\<lambda>(c, s). treatment_prob c \<noteq> None) dr_scores))
        / sum_list (map (\<lambda>(c, s). the (treatment_prob c))
                    (filter (\<lambda>(c, s). treatment_prob c \<noteq> None) dr_scores))))"
proof -
  let ?valid = "filter (\<lambda>(c, s). treatment_prob c \<noteq> None) dr_scores"
  let ?ws = "map (\<lambda>(c, s). the (treatment_prob c)) ?valid"
  from assms(4) obtain c s w where cs: "(c, s) \<in> set dr_scores"
    and w: "treatment_prob c = Some w" "w \<noteq> 0" by blast
  from cs w have ne: "valid_weights dr_scores treatment_prob \<noteq> []"
    unfolding valid_weights_empty by force
  have nonneg: "\<forall>x\<in>set ?ws. 0 \<le> x" using assms(3) by auto
  have "w \<in> set ?ws" using cs w by force
  moreover from assms(3) w have "0 < w" by force
  ultimately have "0 < sum_list ?ws" using sum_list_pos_member [OF nonneg] by blast
  then have "sum_list ?ws \<noteq> 0" by simp
  with weighted_scores_value [OF assms(1,2) ne] show ?thesis
    by (simp add: np_div_def)
qed

text \<open>
  Two columns, of which only \<open>A\<close> is in the table: the result is column \<open>A\<close>.
\<close>

theorem weighted_aggregation_formula_witness:
  "distinct (map fst [(''A'', [2, 4 :: real]), (''AB'', [6, 8])])
   \<and> (\<exists>(c, s)\<in>set [(''A'', [2, 4 :: real]), (''AB'', [6, 8])].
         \<exists>w. map_of [(''A'', 1 / 4 :: real), (''B'', 1 / 4)] c = Some w \<and> w \<noteq> 0)
   \<and> (\<exists>agg. compute_weighted_dr_scores [(''A'', [2, 4]), (''AB'', [6, 8])]
                (map_of [(''A'', 1 / 4), (''B'', 1 / 4)]) = Inr agg
            \<and> length agg = 2 \<and> agg ! 0 = Some 2)"
proof -
  let ?df = "[(''A'', [2, 4 :: real]), (''AB'', [6, 8])]"
  let ?tp = "map_of [(''A'', 1 / 4 :: real), (''B'', 1 / 4)]"
  have h1: "distinct (map fst ?df)" by simp
  have h2: "\<forall>(c, s)\<in>set ?df. length s = 2" by simp
  have h3: "\<forall>c w. ?tp c = Some w \<longrightarrow> 0 \<le> w" by (auto split: if_splits)
  have "?tp ''A'' = Some (1 / 4) \<and> (1 / 4 :: real) \<noteq> 0" by simp
  then have h4: "\<exists>(c, s)\<in>set ?df. \<exists>w. ?tp c = Some w \<and> w \<noteq> 0"
    by (intro bexI [where x = "(''A'', [2, 4])"]) (simp only: prod.case, blast, simp)
  from weighted_aggregation_formula [OF h1 h2 h3 h4]
  obtain agg where a: "compute_weighted_dr_scores ?df ?tp = Inr agg"
    and b: "length agg = 2"
    and c: "\<forall>i<2. agg ! i = Some (
        sum_list (map (\<lambda>(c, s). s ! i * the (?tp c)) (filter (\<lambda>(c, s). ?tp c \<noteq> None) ?df))
        / sum_list (map (\<lambda>(c, s). the (?tp c)) (filter (\<lambda>(c, s). ?tp c \<noteq> None) ?df)))"
    by (elim exE conjE)
  have e: "sum_list (map (\<lambda>(c, s). s ! 0 * the (?tp c)) (filter (\<lambda>(c, s). ?tp c \<noteq> None) ?df))
        / sum_list (map (\<lambda>(c, s). the (?tp c)) (filter (\<lambda>(c, s). ?tp c \<noteq> None) ?df)) = 2"
    by code_simp
  have "agg ! 0 = Some 2"
    using c [rule_format, OF zero_less_numeral] unfolding e .
  with a b have "\<exists>agg. compute_weighted_dr_scores ?df ?tp = Inr agg
            \<and> length agg = 2 \<and> agg ! 0 = Some 2"
    by (intro exI conjI)
  with h1 h2 h3 h4 show ?thesis by (intro conjI)
qed

text \<open>
  Claim C6, as the code supports it.  When no column has a nonzero weight in the table:
  if no column appears in the table at all, the aggregation raises Python's
  \<open>ZeroDivisionError\<close>; if some column appears (with weight zero), it raises nothing and
  returns only non-finite scores.  It never raises \<open>DegenerateWeightError\<close>.
\<close>

theorem zero_weights_no_DegenerateWeightError:
  assumes "\<forall>(c, s)\<in>set dr_scores. \<forall>w. treatment_prob c = Some w \<longrightarrow> w = 0"
  shows "((\<forall>(c, s)\<in>set dr_scores. treatment_prob c = None) \<longrightarrow>
            compute_weighted_dr_scores dr_scores treatment_prob = Inl ZeroDivisionError)
       \<and> (\<not> (\<forall>(c, s)\<in>set dr_scores. treatment_prob c = None) \<longrightarrow>
            (\<exists>agg. compute_weighted_dr_scores dr_scores treatment_prob = Inr agg
                  \<and> (\<forall>v\<in>set agg. v = None)))
       \<and> compute_weighted_dr_scores dr_scores treatment_prob \<noteq> Inl DegenerateWeightError"
proof -
  let ?valid = "valid_weights dr_scores treatment_prob"
  have zero: "\<forall>x\<in>set (map snd ?valid). x = 0"
    unfolding valid_weights_filter using assms by auto
  then have "sum_list (map snd ?valid) = 0"
    by (rule all_zero_sum)
  then have total: "foldl (+) 0 (map snd ?valid) = 0" by (simp add: foldl_plus)
  show ?thesis
  proof (cases ?valid)
    case Nil
    then show ?thesis
      by (simp add: compute_weighted_dr_scores_def valid_weights_empty [symmetric])
  next
    case (Cons cw rest)
    obtain c0 w0 where cw: "cw = (c0, w0)" by (cases cw)
    from Cons have ne: "\<not> (\<forall>(c, s)\<in>set dr_scores. treatment_prob c = None)"
      by (simp add: valid_weights_empty [symmetric])
    from total have "compute_weighted_dr_scores dr_scores treatment_prob
        = Inr (map (\<lambda>v. np_div v 0)
            (foldl (\<lambda>acc (col, w). map2 (+) acc (map (\<lambda>x. x * w) (column dr_scores col)))
               (map (\<lambda>x. 0 + x * w0) (column dr_scores c0)) rest))"
      unfolding compute_weighted_dr_scores_def Cons cw by (simp add: Let_def)
    with ne show ?thesis by (auto simp: np_div_def)
  qed
qed

text \<open>
  The columns \<open>A\<close> and \<open>AB\<close> against a table that holds only \<open>B\<close>.
\<close>

theorem zero_weights_witness:
  "map_of [(''B'', 1 :: real)] ''A'' = None \<and> map_of [(''B'', 1 :: real)] ''AB'' = None
   \<and> compute_weighted_dr_scores [(''A'', [2, 2]), (''AB'', [2, 2])] (map_of [(''B'', 1)])
       = Inl ZeroDivisionError"
proof -
  have h: "\<forall>(c, s)\<in>set [(''A'', [2, 2 :: real]), (''AB'', [2, 2])].
       \<forall>w. map_of [(''B'', 1 :: real)] c = Some w \<longrightarrow> w = 0" by simp
  have n: "\<forall>(c, s)\<in>set [(''A'', [2, 2 :: real]), (''AB'', [2, 2])].
       map_of [(''B'', 1 :: real)] c = None" by simp
  from zero_weights_no_DegenerateWeightError [OF h] n
  have "compute_weighted_dr_scores [(''A'', [2, 2]), (''AB'', [2, 2])] (map_of [(''B'', 1)])
       = Inl ZeroDivisionError" by blast
  moreover have "map_of [(''B'', 1 :: real)] ''A'' = None"
    and "map_of [(''B'', 1 :: real)] ''AB'' = None" by simp_all
  ultimately show ?thesis by (intro conjI)
qed

text \<open>
  Claim C6 as stated fails: with no valid column the error is \<open>ZeroDivisionError\<close>, and
  with a zero weight there is no error at all.
\<close>

theorem zero_weights_counterexample:
  "compute_weighted_dr_scores [(''A'', [2, 2]), (''AB'', [2, 2])] (map_of [(''B'', 1)])
     = Inl ZeroDivisionError
   \<and> compute_weighted_dr_scores [(''A'', [2, 2]), (''AB'', [2, 2])] (map_of [(''B'', 1)])
     \<noteq> Inl DegenerateWeightError
   \<and> compute_weighted_dr_scores [(''A'', [2, 2])] (map_of [(''A'', 0)]) = Inr [None, None]"
  by code_simp

section \<open>Properties of the main loop\<close>

lemma treatment_loop_results:
  "treatment_loop body ks res = Inr r \<Longrightarrow>
     (\<forall>k\<in>set ks. \<exists>a. body k = Inr a \<and> r k = Some a) \<and> (\<forall>x. x \<notin> set ks \<longrightarrow> r x = res x)"
proof (induction ks arbitrary: res)
  case Nil
  then show ?case by simp
next
  case (Cons k ks)
  from Cons.prems obtain a where a: "body k = Inr a"
    and rest: "treatment_loop body ks (res(k \<mapsto> a)) = Inr r"
    by (auto split: sum.splits)
  from Cons.IH [OF rest]
  have inner: "\<forall>j\<in>set ks. \<exists>b. body j = Inr b \<and> r j = Some b"
    and outer: "\<forall>x. x \<notin> set ks \<longrightarrow> r x = (res(k \<mapsto> a)) x"
    by blast+
  have "r k = Some a"
  proof (cases "k \<in> set ks")
    case True
    with inner a show ?thesis by fastforce
  next
    case False
    with outer show ?thesis by simp
  qed
  with a inner outer show ?case by auto
qed

lemma treatment_loop_succeeds:
  "\<forall>k\<in>set ks. \<exists>a. body k = Inr a \<Longrightarrow> \<exists>r. treatment_loop body ks res = Inr r"
  by (induction ks arbitrary: res) (auto split: sum.splits)

lemma treatment_loop_first_failure:
  "\<forall>j\<in>set pre. \<exists>a. body j = Inr a \<Longrightarrow> body k = Inl e \<Longrightarrow>
     treatment_loop body (pre @ k # post) res = Inl e"
  by (induction pre arbitrary: res) (auto split: sum.splits)

lemma features_names_set:
  "set names = set names' \<Longrightarrow> features names cols rs = features names' cols rs"
  by (simp add: features_def)

lemma pair_y_hat_dr_names_set:
  "set names = set names' \<Longrightarrow>
     pair_y_hat_dr clf reg df names X w s = pair_y_hat_dr clf reg df names' X w s"
  by (simp add: pair_y_hat_dr_def features_names_set [of names names'])

lemma pair_loop_names_set:
  "set names = set names' \<Longrightarrow>
     pair_loop clf reg df names X pairs acc = pair_loop clf reg df names' X pairs acc"
  by (induction pairs arbitrary: acc)
     (auto simp: pair_y_hat_dr_names_set [of names names'] split: sum.splits)

lemma treatment_ate_names_set:
  "set names = set names' \<Longrightarrow>
     treatment_ate clf reg df C tp names X k = treatment_ate clf reg df C tp names' X k"
  by (simp add: treatment_ate_def aggregated_dr_scores_def pair_loop_names_set [of names names'])

lemma missing_columns_names_set:
  "set names = set names' \<Longrightarrow> missing_columns names df = missing_columns names' df"
  by (simp add: missing_columns_def)

lemma calculate_ate_Inr:
  assumes "calculate_ate clf reg df C tp ts = Inr results"
  shows "\<not> missing_columns (treatment_cols_of ts) df"
    and "treatment_loop
           (treatment_ate clf reg df C tp (treatment_cols_of ts)
              (features (treatment_cols_of ts) (num_cols df) (obs_rows df)))
           ts Map.empty = Inr results"
  using assms by (auto simp: calculate_ate_def Let_def split: if_splits)

lemma calculate_ate_entries:
  assumes "calculate_ate clf reg df C tp ts = Inr results"
  shows "dom results = set ts"
    and "k \<in> set ts \<Longrightarrow>
         \<exists>a. treatment_ate clf reg df C tp (treatment_cols_of ts)
                (features (treatment_cols_of ts) (num_cols df) (obs_rows df)) k = Inr a
              \<and> results k = Some a"
proof -
  note loop = treatment_loop_results [OF calculate_ate_Inr(2) [OF assms]]
  from loop show "dom results = set ts" by (fastforce simp: dom_def)
  from loop show "k \<in> set ts \<Longrightarrow>
         \<exists>a. treatment_ate clf reg df C tp (treatment_cols_of ts)
                (features (treatment_cols_of ts) (num_cols df) (obs_rows df)) k = Inr a
              \<and> results k = Some a" by blast
qed

lemma example_features:
  "features (treatment_cols_of [''A'', ''B'']) (num_cols example_df) (obs_rows example_df)
     = [[0], [0], [0], [0]]"
  by code_simp

lemma example_run_returns:
  "\<exists>results. calculate_ate base_rate_classifier mean_regressor example_df (C_of [''A'', ''B''])
      example_prob [''A'', ''B''] = Inr results"
proof -
  have "case calculate_ate base_rate_classifier mean_regressor example_df (C_of [''A'', ''B''])
      example_prob [''A'', ''B''] of Inl e \<Rightarrow> False | Inr r \<Rightarrow> True"
    by code_simp
  then show ?thesis by (auto split: sum.splits)
qed

text \<open>
  Claim C8.  When \<open>calculate_ate\<close> returns, the mapping has exactly the input treatment
  labels as keys, and the entry of each treatment is the mean, over the covariate matrix
  \<open>X\<close> of the whole training frame, of the predictions of the one regression fitted on
  \<open>X\<close> with that treatment's aggregated scores as target.
\<close>

theorem calculate_ate_final_regression:
  assumes "calculate_ate clf reg df_train C treatment_prob treatments = Inr results"
  shows "dom results = set treatments \<and>
    (\<forall>k\<in>set treatments. \<exists>agg ate_model.
        aggregated_dr_scores clf reg df_train C treatment_prob (treatment_cols_of treatments)
          (features (treatment_cols_of treatments) (num_cols df_train) (obs_rows df_train)) k
          = Inr agg
      \<and> LinearRegression_fit reg
          (features (treatment_cols_of treatments) (num_cols df_train) (obs_rows df_train)) agg
          = Inr ate_model
      \<and> results k = Some (np_mean (predict ate_model
          (features (treatment_cols_of treatments) (num_cols df_train) (obs_rows df_train)))))"
proof (intro conjI ballI)
  show "dom results = set treatments" by (rule calculate_ate_entries(1) [OF assms])
next
  fix k assume "k \<in> set treatments"
  from calculate_ate_entries(2) [OF assms this]
  show "\<exists>agg ate_model.
        aggregated_dr_scores clf reg df_train C treatment_prob (treatment_cols_of treatments)
          (features (treatment_cols_of treatments) (num_cols df_train) (obs_rows df_train)) k
          = Inr agg
      \<and> LinearRegression_fit reg
          (features (treatment_cols_of treatments) (num_cols df_train) (obs_rows df_train)) agg
          = Inr ate_model
      \<and> results k = Some (np_mean (predict ate_model
          (features (treatment_cols_of treatments) (num_cols df_train) (obs_rows df_train))))"
    by (auto simp: treatment_ate_def final_regression_def split: sum.splits)
qed

text \<open>
  The run on the four-unit frame returns a mapping with the keys \<open>A\<close> and \<open>B\<close>.
\<close>

theorem calculate_ate_final_regression_witness:
  "\<exists>results. calculate_ate base_rate_classifier mean_regressor example_df (C_of [''A'', ''B''])
      example_prob [''A'', ''B''] = Inr results
     \<and> dom results = set [''A'', ''B'']"
proof -
  from example_run_returns obtain results
    where r: "calculate_ate base_rate_classifier mean_regressor example_df (C_of [''A'', ''B''])
      example_prob [''A'', ''B''] = Inr results" by blast
  from calculate_ate_final_regression [OF r]
  have "dom results = set [''A'', ''B'']" by (rule conjunct1)
  with r show ?thesis by (intro exI conjI)
qed

text \<open>
  Claim C9.  A run on a permutation of the treatment list returns the same mapping: every
  treatment label gets the same value.
\<close>

theorem calculate_ate_permutation:
  assumes "mset treatments' = mset treatments"
    and "calculate_ate clf reg df_train C treatment_prob treatments = Inr results"
  shows "calculate_ate clf reg df_train C treatment_prob treatments' = Inr results"
proof -
  let ?names = "treatment_cols_of treatments" and ?names' = "treatment_cols_of treatments'"
  let ?X = "features ?names (num_cols df_train) (obs_rows df_train)"
  let ?body = "treatment_ate clf reg df_train C treatment_prob ?names ?X"
  from assms(1) have sets: "set treatments' = set treatments" by (rule mset_eq_setD)
  then have names: "set ?names' = set ?names" by (simp add: treatment_cols_of_def)
  have X': "features ?names' (num_cols df_train) (obs_rows df_train) = ?X"
    by (rule features_names_set [OF names])
  have body': "treatment_ate clf reg df_train C treatment_prob ?names' ?X = ?body"
    by (rule ext) (rule treatment_ate_names_set [OF names])
  have nm: "\<not> missing_columns ?names' df_train"
    using calculate_ate_Inr(1) [OF assms(2)] missing_columns_names_set [OF names] by simp
  note loop = treatment_loop_results [OF calculate_ate_Inr(2) [OF assms(2)]]
  from loop sets have "\<forall>k\<in>set treatments'. \<exists>a. ?body k = Inr a" by blast
  from treatment_loop_succeeds [OF this] obtain r'
    where r': "treatment_loop ?body treatments' Map.empty = Inr r'" by blast
  note loop' = treatment_loop_results [OF r']
  have "r' x = results x" for x
  proof (cases "x \<in> set treatments")
    case True
    with loop loop' sets show ?thesis by fastforce
  next
    case False
    with loop loop' sets show ?thesis by simp
  qed
  then have "r' = results" by (rule ext)
  with r' nm show ?thesis by (simp add: calculate_ate_def Let_def X' body')
qed

text \<open>
  The treatment lists \<open>A, B\<close> and \<open>B, A\<close> on the four-unit frame.
\<close>

theorem calculate_ate_permutation_witness:
  "mset [''B'', ''A''] = mset [''A'', ''B'']
   \<and> (\<exists>results.
         calculate_ate base_rate_classifier mean_regressor example_df (C_of [''A'', ''B''])
           example_prob [''A'', ''B''] = Inr results
       \<and> calculate_ate base_rate_classifier mean_regressor example_df (C_of [''A'', ''B''])
           example_prob [''B'', ''A''] = Inr results)"
proof -
  have m: "mset [''B'', ''A''] = mset [''A'', ''B'']" by (simp add: add.commute)
  from example_run_returns obtain results
    where r: "calculate_ate base_rate_classifier mean_regressor example_df (C_of [''A'', ''B''])
      example_prob [''A'', ''B''] = Inr results" by blast
  from calculate_ate_permutation [OF m r] r
  have "\<exists>results.
         calculate_ate base_rate_classifier mean_regressor example_df (C_of [''A'', ''B''])
           example_prob [''A'', ''B''] = Inr results
       \<and> calculate_ate base_rate_classifier mean_regressor example_df (C_of [''A'', ''B''])
           example_prob [''B'', ''A''] = Inr results"
    by (intro exI conjI)
  with m show ?thesis by (intro conjI)
qed

text \<open>
  Claim C7, as the code supports it.  Nothing in the loop catches an exception: when the
  estimation of a treatment raises, after the treatments before it succeeded, the whole
  call raises that error, and no mapping, partial or other, is returned.
\<close>

theorem calculate_ate_aborts:
  assumes "\<not> missing_columns (treatment_cols_of (pre @ k # post)) df_train"
    and "\<forall>j\<in>set pre. \<exists>a. treatment_ate clf reg df_train C treatment_prob
            (treatment_cols_of (pre @ k # post))
            (features (treatment_cols_of (pre @ k # post)) (num_cols df_train) (obs_rows df_train))
            j = Inr a"
    and "treatment_ate clf reg df_train C treatment_prob (treatment_cols_of (pre @ k # post))
            (features (treatment_cols_of (pre @ k # post)) (num_cols df_train) (obs_rows df_train))
            k = Inl e"
  shows "calculate_ate clf reg df_train C treatment_prob (pre @ k # post) = Inl e"
  using assms(1) treatment_loop_first_failure [OF assms(2,3)]
  by (simp add: calculate_ate_def Let_def)

text \<open>
  The treatments \<open>B, A\<close> with a table that holds only \<open>B\<close>: the estimate of \<open>B\<close> is
  computed, the aggregation for \<open>A\<close> divides by zero, and the call raises.
\<close>

theorem calculate_ate_aborts_witness:
  "\<not> missing_columns (treatment_cols_of ([''B''] @ ''A'' # [])) example_df
   \<and> treatment_ate base_rate_classifier mean_regressor example_df
          (C_of [''A'', ''B'']) (map_of [(''B'', 1)]) (treatment_cols_of ([''B''] @ ''A'' # []))
          (features (treatment_cols_of ([''B''] @ ''A'' # [])) (num_cols example_df)
             (obs_rows example_df)) ''B'' = Inr (- 1)
   \<and> treatment_ate base_rate_classifier mean_regressor example_df
          (C_of [''A'', ''B'']) (map_of [(''B'', 1)]) (treatment_cols_of ([''B''] @ ''A'' # []))
          (features (treatment_cols_of ([''B''] @ ''A'' # [])) (num_cols example_df)
             (obs_rows example_df)) ''A'' = Inl ZeroDivisionError
   \<and> calculate_ate base_rate_classifier mean_regressor example_df (C_of [''A'', ''B''])
          (map_of [(''B'', 1)]) ([''B''] @ ''A'' # []) = Inl ZeroDivisionError"
proof -
  let ?body = "treatment_ate base_rate_classifier mean_regressor example_df
          (C_of [''A'', ''B'']) (map_of [(''B'', 1)]) (treatment_cols_of ([''B''] @ ''A'' # []))
          (features (treatment_cols_of ([''B''] @ ''A'' # [])) (num_cols example_df)
             (obs_rows example_df))"
  have h1: "\<not> missing_columns (treatment_cols_of ([''B''] @ ''A'' # [])) example_df"
    by code_simp
  have b: "?body ''B'' = Inr (- 1)" by code_simp
  then have h2: "\<forall>j\<in>set [''B'']. \<exists>a. ?body j = Inr a" by simp
  have h3: "?body ''A'' = Inl ZeroDivisionError" by code_simp
  from calculate_ate_aborts [OF h1 h2 h3] h1 b h3 show ?thesis by (intro conjI)
qed

text \<open>
  Claim C7 as stated fails: in the same run the estimate \<open>-1\<close> of treatment \<open>B\<close> is lost
  with the failure of \<open>A\<close>; the result is the exception, not a partial mapping.
\<close>

theorem batch_abort_counterexample:
  "treatment_ate base_rate_classifier mean_regressor example_df (C_of [''A'', ''B''])
      (map_of [(''B'', 1)]) (treatment_cols_of [''B'', ''A''])
      (features (treatment_cols_of [''B'', ''A'']) (num_cols example_df) (obs_rows example_df))
      ''B'' = Inr (- 1)
   \<and> calculate_ate base_rate_classifier mean_regressor example_df (C_of [''A'', ''B''])
      (map_of [(''B'', 1)]) [''B'', ''A''] = Inl ZeroDivisionError"
proof -
  let ?body = "treatment_ate base_rate_classifier mean_regressor example_df (C_of [''A'', ''B''])
      (map_of [(''B'', 1)]) (treatment_cols_of [''B'', ''A''])
      (features (treatment_cols_of [''B'', ''A'']) (num_cols example_df) (obs_rows example_df))"
  have c: "\<not> missing_columns (treatment_cols_of [''B'', ''A'']) example_df" by code_simp
  have b: "?body ''B'' = Inr (- 1)" by code_simp
  have a: "?body ''A'' = Inl ZeroDivisionError" by code_simp
  from b have s: "\<forall>j\<in>set [''B'']. \<exists>r. ?body j = Inr r" by simp
  have "calculate_ate base_rate_classifier mean_regressor example_df (C_of [''A'', ''B''])
      (map_of [(''B'', 1)]) [''B'', ''A''] = treatment_loop ?body [''B'', ''A''] Map.empty"
    unfolding calculate_ate_def Let_def using c by (simp only: if_False)
  also have "\<dots> = Inl ZeroDivisionError"
    using treatment_loop_first_failure [OF s a, of "[]" Map.empty] by (simp only: append.simps)
  finally show ?thesis using b by (intro conjI)
qed

section \<open>The final regression and the mean\<close>

lemma squares_shift:
  "sum_list (map (\<lambda>(row, v). (v - (p row + d))\<^sup>2) ps)
     = sum_list (map (\<lambda>(row, v). (v - p row)\<^sup>2) ps)
       - 2 * d * sum_list (map (\<lambda>(row, v). v - p row) ps)
       + real (length ps) * d\<^sup>2" for d :: real
  by (induction ps) (auto simp: power2_eq_square algebra_simps)

lemma predict_row_shift: "predict_row (fst m + d, snd m) row = predict_row m row + d"
  by (simp add: predict_row_def)

lemma residuals_sum_zero:
  assumes "least_squares_fit m X y"
  shows "sum_list (map (\<lambda>(row, v). v - predict_row m row) (zip X y)) = 0"
proof -
  define ps where "ps = zip X y"
  define S where "S = sum_list (map (\<lambda>(row, v). v - predict_row m row) ps)"
  define n where "n = real (length ps)"
  show ?thesis
  proof (cases "ps = []")
    case True
    then show ?thesis unfolding ps_def [symmetric] by simp
  next
    case False
    then have n: "0 < n" by (simp add: n_def)
    define d where "d = S / n"
    have "sse (fst m + d, snd m) X y = sse m X y - 2 * d * S + n * d\<^sup>2"
      unfolding sse_def predict_row_shift ps_def [symmetric] S_def n_def by (rule squares_shift)
    also have "\<dots> = sse m X y - S\<^sup>2 / n"
      using n by (simp add: d_def power2_eq_square field_simps)
    finally have "sse (fst m + d, snd m) X y = sse m X y - S\<^sup>2 / n" .
    moreover from assms have "sse m X y \<le> sse (fst m + d, snd m) X y"
      unfolding least_squares_fit_def by blast
    ultimately have "S\<^sup>2 / n \<le> 0" by simp
    with n have "S\<^sup>2 \<le> 0" by (simp add: field_simps)
    then have "S = 0" by simp
    then show ?thesis unfolding S_def ps_def .
  qed
qed

lemma sum_residuals:
  "length X = length y \<Longrightarrow>
     sum_list (map (\<lambda>(row, v). v - f row) (zip X y)) = sum_list y - sum_list (map f X)"
  for y :: "real list"
  by (induction X y rule: list_induct2) simp_all

lemma least_squares_mean:
  assumes "least_squares_fit m X y" and "length X = length y"
  shows "np_mean (predict m X) = np_mean y"
  using residuals_sum_zero [OF assms(1)] sum_residuals [OF assms(2), of "predict_row m"] assms(2)
  by (simp add: np_mean_def predict_def)

lemma pair_y_hat_dr_length:
  "pair_y_hat_dr clf reg df names X w s = Inr yh \<Longrightarrow> length yh = length X"
  by (auto simp: pair_y_hat_dr_def Let_def predict_def split: sum.splits)

lemma pair_loop_lengths:
  "pair_loop clf reg df names X pairs acc = Inr l \<Longrightarrow> \<forall>c\<in>set acc. length c = length X \<Longrightarrow>
     \<forall>c\<in>set l. length c = length X"
proof (induction pairs arbitrary: acc)
  case Nil
  then show ?case by simp
next
  case (Cons p pairs)
  obtain w s where p: "p = (w, s)" by (cases p)
  from Cons.prems(1) p obtain yh where yh: "pair_y_hat_dr clf reg df names X w s = Inr yh"
    and rest: "pair_loop clf reg df names X pairs (acc @ [yh]) = Inr l"
    by (auto split: sum.splits)
  from pair_y_hat_dr_length [OF yh] Cons.prems(2)
  have "\<forall>c\<in>set (acc @ [yh]). length c = length X" by simp
  from Cons.IH [OF rest this] show ?case .
qed

lemma dict_set_keys: "fst ` set (dict_set d k v) = insert k (fst ` set d)"
  by (induction d k v rule: dict_set.induct) (simp, force)

lemma dict_set_distinct: "distinct (map fst d) \<Longrightarrow> distinct (map fst (dict_set d k v))"
proof (induction d)
  case Nil
  then show ?case by simp
next
  case (Cons a d)
  obtain k' v' where a: "a = (k', v')" by (cases a)
  show ?case
  proof (cases "k' = k")
    case True
    with Cons.prems a show ?thesis by simp
  next
    case False
    have "k' \<notin> fst ` set (dict_set d k v)"
      using Cons.prems a False by (simp add: dict_set_keys)
    with Cons a False show ?thesis by simp
  qed
qed

lemma dict_set_values: "set (dict_set d k v) \<subseteq> insert (k, v) (set d)"
proof (induction d k v rule: dict_set.induct)
  case (1 k v)
  then show ?case by simp
next
  case (2 k' v' d k v)
  show ?case
  proof (cases "k' = k")
    case True
    then show ?thesis by auto
  next
    case False
    with 2 show ?thesis by auto
  qed
qed

lemma dict_fold_invariant:
  "distinct (map fst d) \<Longrightarrow> \<forall>(c, s)\<in>set d. P s \<Longrightarrow> \<forall>(c, s)\<in>set kvs. P s \<Longrightarrow>
     distinct (map fst (foldl (\<lambda>d (k, v). dict_set d k v) d kvs))
     \<and> (\<forall>(c, s)\<in>set (foldl (\<lambda>d (k, v). dict_set d k v) d kvs). P s)"
proof (induction kvs arbitrary: d)
  case Nil
  then show ?case by simp
next
  case (Cons kv kvs)
  obtain k v where kv: "kv = (k, v)" by (cases kv)
  have 1: "distinct (map fst (dict_set d k v))" by (rule dict_set_distinct [OF Cons.prems(1)])
  have 2: "\<forall>(c, s)\<in>set (dict_set d k v). P s"
    using dict_set_values [of d k v] Cons.prems(2,3) kv by auto
  have 3: "\<forall>(c, s)\<in>set kvs. P s" using Cons.prems(3) by simp
  from Cons.IH [OF 1 2 3] show ?case by (simp add: kv)
qed

lemma dict_of_columns:
  "\<forall>(c, s)\<in>set kvs. P s \<Longrightarrow>
     distinct (map fst (dict_of kvs)) \<and> (\<forall>(c, s)\<in>set (dict_of kvs). P s)"
  unfolding dict_of_def by (rule dict_fold_invariant) simp_all

lemma aggregated_dr_scores_length:
  assumes "aggregated_dr_scores clf reg df C tp names X k = Inr agg"
  shows "length agg = length X"
proof -
  from assms obtain l where l: "pair_loop clf reg df names X (matched_pairs C k) [] = Inr l"
    and agg: "compute_weighted_dr_scores (dict_of (zip (W_k C k) l)) tp = Inr agg"
    by (auto simp: aggregated_dr_scores_def split: sum.splits)
  have "\<forall>c\<in>set l. length c = length X" by (rule pair_loop_lengths [OF l]) simp
  then have "\<forall>(c, s)\<in>set (zip (W_k C k) l). length s = length X"
    by (auto dest: set_zip_rightD)
  from dict_of_columns [where P = "\<lambda>s. length s = length X", OF this]
  have d: "distinct (map fst (dict_of (zip (W_k C k) l)))"
    and len: "\<forall>(c, s)\<in>set (dict_of (zip (W_k C k) l)). length s = length X"
    by blast+
  have ne: "valid_weights (dict_of (zip (W_k C k) l)) tp \<noteq> []"
    using agg by (auto simp: compute_weighted_dr_scores_def)
  from weighted_scores_value [OF d len ne] agg show ?thesis by auto
qed

lemma zero_row_dot:
  "\<forall>v\<in>set row. v = (0::real) \<Longrightarrow> sum_list (map2 (*) w row) = 0"
proof (induction row arbitrary: w)
  case Nil
  then show ?case by simp
next
  case (Cons a row)
  then show ?case by (cases w) simp_all
qed

lemma squares_about_mean:
  assumes "ys \<noteq> []"
  shows "sum_list (map (\<lambda>v. (v - np_mean ys)\<^sup>2) ys) \<le> sum_list (map (\<lambda>v. (v - b)\<^sup>2) ys)"
proof -
  define d where "d = b - np_mean ys"
  let ?ps = "map (\<lambda>v. ((), v)) ys"
  have "sum_list (map (\<lambda>(row, v). (v - (np_mean ys + d))\<^sup>2) ?ps)
     = sum_list (map (\<lambda>(row, v). (v - np_mean ys)\<^sup>2) ?ps)
       - 2 * d * sum_list (map (\<lambda>(row, v). v - np_mean ys) ?ps)
       + real (length ?ps) * d\<^sup>2"
    by (rule squares_shift [where p = "\<lambda>_. np_mean ys"])
  moreover have "sum_list (map (\<lambda>(row, v). v - np_mean ys) ?ps) = 0"
    using assms by (simp add: o_def sum_list_subtractf np_mean_def sum_list_triv)
  moreover have "np_mean ys + d = b" by (simp add: d_def)
  ultimately have "sum_list (map (\<lambda>v. (v - b)\<^sup>2) ys)
     = sum_list (map (\<lambda>v. (v - np_mean ys)\<^sup>2) ys) + real (length ys) * d\<^sup>2"
    by (simp add: o_def)
  then show ?thesis by simp
qed

lemma mean_regressor_least_squares:
  assumes "\<forall>row\<in>set X. \<forall>v\<in>set row. v = 0" and "length y = length X" and "X \<noteq> []"
  shows "least_squares_fit (mean_regressor X y) X y"
  unfolding least_squares_fit_def
proof
  fix m'
  have const: "predict_row m row = fst m" if "row \<in> set X" for m row
    using that assms(1) by (simp add: predict_row_def zero_row_dot)
  have eq: "sse m X y = sum_list (map (\<lambda>v. (v - fst m)\<^sup>2) y)" for m
  proof -
    have "predict_row m row = fst m" if "(row, v) \<in> set (zip X y)" for row v
      using const [OF set_zip_leftD [OF that]] .
    then have "map2 (\<lambda>row v. (v - predict_row m row)\<^sup>2) X y
        = map2 (\<lambda>row v. (v - fst m)\<^sup>2) X y"
      by auto
    also have "\<dots> = map (\<lambda>v. (v - fst m)\<^sup>2) (map snd (zip X y))" by (simp add: o_def case_prod_unfold)
    also have "\<dots> = map (\<lambda>v. (v - fst m)\<^sup>2) y" using assms(2) by simp
    finally show ?thesis by (simp add: sse_def)
  qed
  from assms(2,3) have "y \<noteq> []" by auto
  from squares_about_mean [OF this, of "fst m'"]
  show "sse (mean_regressor X y) X y \<le> sse m' X y"
    unfolding eq by (simp add: mean_regressor_def)
qed

text \<open>
  Claim C10.  Let the regressor return, on the covariate matrix of the training frame, a
  least-squares fit with intercept for every target.  Then for every treatment the value
  that \<open>calculate_ate\<close> reports is the arithmetic mean of that treatment's aggregated
  scores: the final regression does not change it.
\<close>

theorem ate_equals_mean_of_aggregated_scores:
  assumes "calculate_ate clf reg df_train C treatment_prob treatments = Inr results"
    and "k \<in> set treatments"
    and "\<And>y. length y = length (obs_rows df_train) \<Longrightarrow>
           least_squares_fit
             (reg (features (treatment_cols_of treatments) (num_cols df_train) (obs_rows df_train)) y)
             (features (treatment_cols_of treatments) (num_cols df_train) (obs_rows df_train)) y"
  shows "\<exists>agg. aggregated_dr_scores clf reg df_train C treatment_prob
                 (treatment_cols_of treatments)
                 (features (treatment_cols_of treatments) (num_cols df_train) (obs_rows df_train)) k
               = Inr agg
             \<and> None \<notin> set agg
             \<and> results k = Some (np_mean (map the agg))"
proof -
  let ?X = "features (treatment_cols_of treatments) (num_cols df_train) (obs_rows df_train)"
  have lX: "length ?X = length (obs_rows df_train)" by (simp add: features_def)
  from calculate_ate_entries(2) [OF assms(1,2)] obtain a
    where a: "treatment_ate clf reg df_train C treatment_prob (treatment_cols_of treatments) ?X k
                = Inr a"
      and r: "results k = Some a" by blast
  from a obtain agg
    where agg: "aggregated_dr_scores clf reg df_train C treatment_prob
                  (treatment_cols_of treatments) ?X k = Inr agg"
      and fin: "final_regression reg ?X agg = Inr a"
    by (auto simp: treatment_ate_def split: sum.splits)
  from fin have no_nan: "None \<notin> set agg"
    and a_eq: "a = np_mean (predict (reg ?X (map the agg)) ?X)"
    by (auto simp: final_regression_def LinearRegression_fit_def split: if_splits)
  have len: "length (map the agg) = length (obs_rows df_train)"
    using aggregated_dr_scores_length [OF agg] lX by simp
  from least_squares_mean [OF assms(3) [OF len]] len lX
  have "np_mean (predict (reg ?X (map the agg)) ?X) = np_mean (map the agg)" by simp
  with r a_eq have "results k = Some (np_mean (map the agg))" by simp
  with agg no_nan show ?thesis by (intro exI conjI)
qed

text \<open>
  Treatment \<open>A\<close> on the four-unit frame, with the intercept-only least-squares fit.
\<close>

theorem ate_equals_mean_witness:
  "\<exists>results agg.
      calculate_ate base_rate_classifier mean_regressor example_df (C_of [''A'', ''B''])
        example_prob [''A'', ''B''] = Inr results
    \<and> ''A'' \<in> set [''A'', ''B'']
    \<and> aggregated_dr_scores base_rate_classifier mean_regressor example_df (C_of [''A'', ''B''])
        example_prob (treatment_cols_of [''A'', ''B''])
        (features (treatment_cols_of [''A'', ''B'']) (num_cols example_df) (obs_rows example_df))
        ''A'' = Inr agg
    \<and> results ''A'' = Some (np_mean (map the agg))"
proof -
  let ?X = "features (treatment_cols_of [''A'', ''B'']) (num_cols example_df)
              (obs_rows example_df)"
  from example_run_returns obtain results
    where r: "calculate_ate base_rate_classifier mean_regressor example_df (C_of [''A'', ''B''])
      example_prob [''A'', ''B''] = Inr results" by blast
  have k: "''A'' \<in> set [''A'', ''B'']" by simp
  have n: "length (obs_rows example_df) = 4" by (simp add: example_df_def)
  have ols: "least_squares_fit (mean_regressor ?X y) ?X y"
    if "length y = length (obs_rows example_df)" for y
    unfolding example_features
    by (rule mean_regressor_least_squares) (use that n in simp_all)
  have "\<exists>agg. aggregated_dr_scores base_rate_classifier mean_regressor example_df
        (C_of [''A'', ''B'']) example_prob (treatment_cols_of [''A'', ''B'']) ?X ''A'' = Inr agg
      \<and> None \<notin> set agg \<and> results ''A'' = Some (np_mean (map the agg))"
    by (rule ate_equals_mean_of_aggregated_scores [OF r k]) (rule ols)
  then obtain agg where "aggregated_dr_scores base_rate_classifier mean_regressor example_df
        (C_of [''A'', ''B'']) example_prob (treatment_cols_of [''A'', ''B'']) ?X ''A'' = Inr agg"
    and "results ''A'' = Some (np_mean (map the agg))" by (elim exE conjE)
  with r k show ?thesis by (intro exI conjI)
qed

end
